theory Spec2Isabelle
  imports Complex_Main "HOL-Library.Multiset" "HOL-Library.AList"
begin

section \<open>Lineup optimizer: sleeper_weekly_max_pf_allteams.py\<close>

text \<open>
  Python floats are read as exact real numbers (no rounding, no NaN); Python ints as
  \<open>int\<close>. A \<open>dict\<close> whose iteration order matters is an association list in insertion
  order; a Python dict holds each key once, which is the assumption
  \<open>distinct (map fst d)\<close> wherever a theorem is about an arbitrary dict.
\<close>

subsection \<open>Constants and dict helpers\<close>

definition FIXED_REQUIRED :: "(string \<times> int) list" where
  "FIXED_REQUIRED =
     [(''QB'', 1), (''RB'', 2), (''WR'', 3), (''TE'', 1), (''DEF'', 1), (''K'', 1)]"

definition POS_ALIAS :: "(string \<times> string) list" where
  "POS_ALIAS = [(''DST'', ''DEF''), (''D/ST'', ''DEF''), (''PK'', ''K'')]"

text \<open>\<open>d.get(k, dflt)\<close>\<close>

definition dict_get :: "('k \<times> 'v) list \<Rightarrow> 'k \<Rightarrow> 'v \<Rightarrow> 'v" where
  "dict_get d k dflt = (case map_of d k of Some v \<Rightarrow> v | None \<Rightarrow> dflt)"

text \<open>\<open>POS_ALIAS.get(pos, pos)\<close>\<close>

definition normalize_pos :: "string \<Rightarrow> string" where
  "normalize_pos pos = dict_get POS_ALIAS pos pos"

subsection \<open>compute_required_from_league\<close>

record league =
  roster_positions :: "string list option"

definition ignore :: "string list" where
  "ignore = [''BN'', ''IR'', ''TAXI'']"

definition allowed :: "string list" where
  "allowed = map fst FIXED_REQUIRED"

text \<open>
  One pass of the first loop. \<open>counts\<close> is a \<open>defaultdict(int)\<close>: \<open>counts[p] += 1\<close> reads
  0 for a key that is not there yet and stores the key (\<open>AList.update\<close> replaces the
  value in place, or appends a new key at the end).
\<close>

definition count_slot :: "(string \<times> int) list \<Rightarrow> string \<Rightarrow> (string \<times> int) list" where
  "count_slot counts pos =
     (if pos \<in> set ignore then counts
      else let p = normalize_pos pos
           in if p \<in> set allowed then AList.update p (dict_get counts p 0 + 1) counts
              else counts)"

text \<open>One pass of the second loop, over \<open>FIXED_REQUIRED.items()\<close>.\<close>

definition fallback :: "(string \<times> int) list \<Rightarrow> string \<times> int \<Rightarrow> (string \<times> int) list" where
  "fallback counts kv =
     (if dict_get counts (fst kv) 0 = 0 then AList.update (fst kv) (snd kv) counts
      else counts)"

definition compute_required_from_league :: "league \<Rightarrow> (string \<times> int) list" where
  "compute_required_from_league lg =
     (let rp = (case roster_positions lg of None \<Rightarrow> [] | Some xs \<Rightarrow> xs);
          counts = foldl count_slot [] rp
      in foldl fallback counts FIXED_REQUIRED)"

subsection \<open>select_fixed_best\<close>

record player =
  player_id :: string
  player_name :: string
  position :: string
  score :: real

record slotted_player = player +
  slot :: string

text \<open>\<open>{**p, "slot": pos}\<close>\<close>

definition with_slot :: "string \<Rightarrow> player \<Rightarrow> slotted_player" where
  "with_slot pos p =
     \<lparr>player_id = player_id p, player_name = player_name p, position = position p,
      score = score p, slot = pos\<rparr>"

text \<open>
  \<open>by_pos\<close> is a \<open>defaultdict(list)\<close>, only ever read through \<open>by_pos[k]\<close> and
  \<open>by_pos.get(k, [])\<close>: a total function whose value at a key never written is \<open>[]\<close>.
\<close>

type_synonym by_pos = "string \<Rightarrow> player list"

definition group_player :: "(string \<times> int) list \<Rightarrow> by_pos \<Rightarrow> player \<Rightarrow> by_pos" where
  "group_player required bp p =
     (if position p \<in> set (map fst required)
      then bp(position p := bp (position p) @ [p])
      else bp)"

text \<open>
  \<open>xs.sort(key=lambda x: x["score"], reverse=True)\<close>: descending by score, and stable
  (\<open>reverse=True\<close> keeps the input order of equal keys). Insertion sort on the negated
  key is that order.
\<close>

definition sort_score_desc :: "player list \<Rightarrow> player list" where
  "sort_score_desc xs = sort_key (\<lambda>x. - score x) xs"

text \<open>The slice \<open>xs[:n]\<close>; a negative \<open>n\<close> counts from the end.\<close>

definition slice_to :: "int \<Rightarrow> 'a list \<Rightarrow> 'a list" where
  "slice_to n xs =
     (if 0 \<le> n then take (nat n) xs else take (length xs - nat (- n)) xs)"

definition choose_slot ::
  "by_pos \<Rightarrow> slotted_player list \<Rightarrow> string \<times> int \<Rightarrow> slotted_player list" where
  "choose_slot bp chosen kv =
     chosen @ map (with_slot (fst kv)) (slice_to (snd kv) (bp (fst kv)))"

definition select_fixed_best ::
  "player list \<Rightarrow> (string \<times> int) list \<Rightarrow> slotted_player list \<times> real" where
  "select_fixed_best players required =
     (let by_pos = foldl (group_player required) (\<lambda>_. []) players;
          by_pos = (\<lambda>pos. sort_score_desc (by_pos pos));
          chosen = foldl (choose_slot by_pos) [] required;
          total = sum_list (map score chosen)
      in (chosen, total))"

section \<open>Standings accumulator: Standings.py\<close>

text \<open>
  The two fetches (\<open>get_rosters\<close>, \<open>get_matchups\<close>) are HTTP calls: they are parameters of
  the model, \<open>None\<close> being the source's \<open>None\<close> for a response other than 200. What
  the source prints is kept as a list of messages.
\<close>

text \<open>
  A value of the JSON data that the source reads with \<open>.get\<close>: the key may be missing
  (\<open>None\<close> of the option, where \<open>.get\<close> returns its default), or present with the value
  \<open>null\<close> (where \<open>.get\<close> returns Python's \<open>None\<close>, not the default), or present with a
  value.
\<close>

datatype 'a json = Null | Present 'a

datatype error = KeyError | AttributeError

text \<open>
  The division of a roster as the source compares it: a number, the default string
  \<open>"Unknown"\<close>, or Python's \<open>None\<close> for a division that is \<open>null\<close>.
\<close>

datatype division = Division int | Unknown | No_division

record roster_settings =
  settings_division :: "int json option"

record roster =
  roster_id :: int
  settings :: "roster_settings json option"

text \<open>
  \<open>roster.get("settings", {}).get("division", "Unknown")\<close>: settings that are \<open>null\<close> make
  the second \<open>.get\<close> raise \<open>AttributeError\<close>.
\<close>

definition division_of :: "roster \<Rightarrow> error + division" where
  "division_of r =
     (case settings r of
        None \<Rightarrow> Inr Unknown
      | Some Null \<Rightarrow> Inl AttributeError
      | Some (Present st) \<Rightarrow>
          (case settings_division st of
             None \<Rightarrow> Inr Unknown
           | Some Null \<Rightarrow> Inr No_division
           | Some (Present d) \<Rightarrow> Inr (Division d)))"

text \<open>
  A matchup entry as this script reads it. \<open>matchup.get("matchup_id")\<close> is Python's
  \<open>None\<close> for a missing key and for a \<open>null\<close> alike, so one \<open>None\<close> stands for both.
\<close>

record matchup =
  m_roster_id :: int
  points :: real
  matchup_id :: "int option"

record counters =
  wins :: int
  losses :: int
  ties :: int
  division_wins :: int
  division_losses :: int
  division_ties :: int

datatype message =
    Failed_rosters
  | Failed_matchups int
  | No_opponent_points int int
  | No_scores string int

type_synonym standings = "int \<rightharpoonup> counters"

record progress =
  table :: standings
  printed :: "message list"

definition zero_counters :: counters where
  "zero_counters =
     \<lparr>wins = 0, losses = 0, ties = 0,
      division_wins = 0, division_losses = 0, division_ties = 0\<rparr>"

text \<open>What follows an operation that may raise: the exception ends the run.\<close>

definition and_then :: "error + 'a \<Rightarrow> ('a \<Rightarrow> error + 'b) \<Rightarrow> error + 'b" where
  "and_then r f = (case r of Inl e \<Rightarrow> Inl e | Inr x \<Rightarrow> f x)"

text \<open>
  \<open>standings[rid][field] += 1\<close>, the field given by its update function; a roster id
  that is not a key of \<open>standings\<close> raises \<open>KeyError\<close>.
\<close>

definition incr :: "((int \<Rightarrow> int) \<Rightarrow> counters \<Rightarrow> counters) \<Rightarrow> int \<Rightarrow> standings \<Rightarrow> error + standings" where
  "incr field rid st =
     (case st rid of None \<Rightarrow> Inl KeyError
      | Some c \<Rightarrow> Inr (st(rid \<mapsto> field (\<lambda>n. n + 1) c)))"

text \<open>
  The opponent of an entry: \<open>matchup.get("matchup_id")\<close> is read as the opponent's roster
  id; a missing or zero id is falsy, and the opponent is the first entry of the week
  with that roster id. The result is the opponent's id and points, \<open>None\<close> when
  \<open>opponent_points\<close> stays \<open>None\<close>.
\<close>

definition resolve_opponent :: "matchup list \<Rightarrow> int option \<Rightarrow> (int \<times> real) option" where
  "resolve_opponent matchups opponent_id =
     (case opponent_id of None \<Rightarrow> None
      | Some oid \<Rightarrow>
          if oid = 0 then None
          else (case find (\<lambda>m. m_roster_id m = oid) matchups of
                  None \<Rightarrow> None
                | Some om \<Rightarrow> Some (oid, points om)))"

text \<open>Determine win, loss, or tie.\<close>

definition record_result :: "int \<Rightarrow> int \<Rightarrow> real \<Rightarrow> real \<Rightarrow> standings \<Rightarrow> error + standings" where
  "record_result rid oid pts opp_pts st =
     (if pts > opp_pts then
        and_then (incr wins_update rid st) (incr losses_update oid)
      else if pts < opp_pts then
        and_then (incr losses_update rid st) (incr wins_update oid)
      else
        and_then (incr ties_update rid st) (incr ties_update oid))"

text \<open>Update division record if applicable.\<close>

definition record_division_result ::
  "(int \<rightharpoonup> division) \<Rightarrow> int \<Rightarrow> int \<Rightarrow> real \<Rightarrow> real \<Rightarrow> standings \<Rightarrow> error + standings" where
  "record_division_result roster_divisions rid oid pts opp_pts st =
     (case roster_divisions rid of None \<Rightarrow> Inl KeyError
      | Some d \<Rightarrow>
         (case roster_divisions oid of None \<Rightarrow> Inl KeyError
          | Some d' \<Rightarrow>
             if d = d' then
               (if pts > opp_pts then
                  and_then (incr division_wins_update rid st) (incr division_losses_update oid)
                else if pts < opp_pts then
                  and_then (incr division_losses_update rid st) (incr division_wins_update oid)
                else
                  and_then (incr division_ties_update rid st) (incr division_ties_update oid))
             else Inr st))"

text \<open>The body of the inner loop, for one entry of the week's list.\<close>

definition process_entry ::
  "(int \<rightharpoonup> division) \<Rightarrow> matchup list \<Rightarrow> int \<Rightarrow> progress \<Rightarrow> matchup \<Rightarrow> error + progress" where
  "process_entry roster_divisions matchups w pr m =
     (case resolve_opponent matchups (matchup_id m) of
        None \<Rightarrow> Inr (pr\<lparr>printed := printed pr @ [No_opponent_points (m_roster_id m) w]\<rparr>)
      | Some (oid, opp_pts) \<Rightarrow>
          and_then (record_result (m_roster_id m) oid (points m) opp_pts (table pr))
            (\<lambda>st. and_then
               (record_division_result roster_divisions (m_roster_id m) oid (points m) opp_pts st)
               (\<lambda>st'. Inr (pr\<lparr>table := st'\<rparr>))))"

fun process_entries ::
  "(int \<rightharpoonup> division) \<Rightarrow> matchup list \<Rightarrow> int \<Rightarrow> matchup list \<Rightarrow> progress \<Rightarrow> error + progress" where
  "process_entries roster_divisions matchups w [] pr = Inr pr"
| "process_entries roster_divisions matchups w (m # ms) pr =
     and_then (process_entry roster_divisions matchups w pr m)
       (process_entries roster_divisions matchups w ms)"

text \<open>The body of the outer loop; \<open>not matchups\<close> holds of \<open>None\<close> and of the empty list.\<close>

definition process_week ::
  "(int \<Rightarrow> matchup list option) \<Rightarrow> (int \<rightharpoonup> division) \<Rightarrow> int \<Rightarrow> progress \<Rightarrow> error + progress" where
  "process_week get_matchups roster_divisions w pr =
     (case get_matchups w of
        None \<Rightarrow> Inr (pr\<lparr>printed := printed pr @ [Failed_matchups w]\<rparr>)
      | Some matchups \<Rightarrow>
          if matchups = [] then Inr (pr\<lparr>printed := printed pr @ [Failed_matchups w]\<rparr>)
          else process_entries roster_divisions matchups w matchups pr)"

fun process_weeks ::
  "(int \<Rightarrow> matchup list option) \<Rightarrow> (int \<rightharpoonup> division) \<Rightarrow> int list \<Rightarrow> progress \<Rightarrow> error + progress" where
  "process_weeks get_matchups roster_divisions [] pr = Inr pr"
| "process_weeks get_matchups roster_divisions (w # ws) pr =
     and_then (process_week get_matchups roster_divisions w pr)
       (process_weeks get_matchups roster_divisions ws)"

text \<open>
  The dict comprehension that builds \<open>roster_divisions\<close>: a later roster with the same id
  overwrites an earlier one, and the first roster whose division cannot be read ends the
  run.
\<close>

fun build_divisions :: "roster list \<Rightarrow> (int \<rightharpoonup> division) \<Rightarrow> error + (int \<rightharpoonup> division)" where
  "build_divisions [] d = Inr d"
| "build_divisions (r # rs) d =
     and_then (division_of r) (\<lambda>dv. build_divisions rs (d(roster_id r \<mapsto> dv)))"

text \<open>
  \<open>process_matchups\<close>: the two dict comprehensions, then the weeks
  \<open>range(1, max_week + 1)\<close>. The result is the returned value (\<open>None\<close> after a failed
  roster fetch) with the printed messages.
\<close>

definition process_matchups ::
  "roster list option \<Rightarrow> (int \<Rightarrow> matchup list option) \<Rightarrow> int
     \<Rightarrow> error + (standings option \<times> message list)" where
  "process_matchups rosters get_matchups max_week =
     (case rosters of
        None \<Rightarrow> Inr (None, [Failed_rosters])
      | Some rs \<Rightarrow>
          if rs = [] then Inr (None, [Failed_rosters])
          else
            and_then (build_divisions rs Map.empty)
              (\<lambda>roster_divisions.
                 let st0 = (\<lambda>rid. case roster_divisions rid of None \<Rightarrow> None
                                   | Some _ \<Rightarrow> Some zero_counters)
                 in and_then
                      (process_weeks get_matchups roster_divisions [1..max_week]
                         \<lparr>table = st0, printed = []\<rparr>)
                      (\<lambda>pr. Inr (Some (table pr), printed pr))))"

section \<open>Weekly rank extraction: topScorer.py\<close>

text \<open>
  A record of the player database. \<open>player_info.get("position")\<close> is Python's \<open>None\<close> for
  a missing key and for a \<open>null\<close> alike, so one \<open>None\<close> stands for both.
\<close>

record player_info =
  info_position :: "string option"

text \<open>
  A matchup entry as this script reads it: the value of its key \<open>players_points\<close>, a dict
  in the order of its items. The player database is a dict from player ids to records.
  Scores are numbers.
\<close>

record scored_matchup =
  players_points :: "(string \<times> real) list json option"

record weekly_score =
  week :: int
  highest_score :: "real option"
  twelfth_highest_score :: "real option"

text \<open>
  \<open>players.get(player_id, {}).get("position")\<close>: a player that is not in the database has
  no position; a record that is \<open>null\<close> makes the second \<open>.get\<close> raise \<open>AttributeError\<close>.
\<close>

definition position_of :: "(string \<rightharpoonup> player_info json) \<Rightarrow> string \<Rightarrow> error + string option" where
  "position_of players pid =
     (case players pid of
        None \<Rightarrow> Inr None
      | Some Null \<Rightarrow> Inl AttributeError
      | Some (Present i) \<Rightarrow> Inr (info_position i))"

text \<open>The inner loop, over the items of one entry's \<open>players_points\<close>.\<close>

fun collect_items ::
  "(string \<rightharpoonup> player_info json) \<Rightarrow> string \<Rightarrow> (string \<times> real) list \<Rightarrow> real list
     \<Rightarrow> error + real list" where
  "collect_items players pos [] position_scores = Inr position_scores"
| "collect_items players pos (item # items) position_scores =
     and_then (position_of players (fst item))
       (\<lambda>p. collect_items players pos items
              (if p = Some pos then position_scores @ [snd item] else position_scores))"

text \<open>
  The outer loop, over the entries of the week. \<open>matchup.get("players_points", {})\<close> is
  the empty dict for a missing key, and Python's \<open>None\<close> for a value that is \<open>null\<close>, on
  which \<open>.items()\<close> raises \<open>AttributeError\<close>.
\<close>

fun collect_scores ::
  "(string \<rightharpoonup> player_info json) \<Rightarrow> string \<Rightarrow> scored_matchup list \<Rightarrow> real list
     \<Rightarrow> error + real list" where
  "collect_scores players pos [] position_scores = Inr position_scores"
| "collect_scores players pos (m # ms) position_scores =
     (case players_points m of
        None \<Rightarrow> collect_scores players pos ms position_scores
      | Some Null \<Rightarrow> Inl AttributeError
      | Some (Present pp) \<Rightarrow>
          and_then (collect_items players pos pp position_scores)
            (collect_scores players pos ms))"

text \<open>
  The entry appended for a fetched week. \<open>position_scores.sort(reverse=True)\<close> sorts
  descending; both reads \<open>[0]\<close> and \<open>[11]\<close> are guarded by the source, so neither is
  out of range.
\<close>

definition week_entry :: "int \<Rightarrow> real list \<Rightarrow> weekly_score" where
  "week_entry w position_scores =
     (if position_scores \<noteq> [] then
        let sorted_scores = sort_key (\<lambda>x. - x) position_scores
        in \<lparr>week = w,
            highest_score = Some (sorted_scores ! 0),
            twelfth_highest_score =
              (if length sorted_scores \<ge> 12 then Some (sorted_scores ! 11) else None)\<rparr>
      else \<lparr>week = w, highest_score = None, twelfth_highest_score = None\<rparr>)"

text \<open>The body of the loop over the weeks; the state is \<open>weekly_scores\<close> and what was printed.\<close>

definition scan_week ::
  "(int \<Rightarrow> scored_matchup list option) \<Rightarrow> (string \<rightharpoonup> player_info json) \<Rightarrow> string
     \<Rightarrow> weekly_score list \<times> message list \<Rightarrow> int
     \<Rightarrow> error + weekly_score list \<times> message list" where
  "scan_week get_matchups players pos acc w =
     (case get_matchups w of
        None \<Rightarrow> Inr (fst acc, snd acc @ [Failed_matchups w])
      | Some matchups \<Rightarrow>
          if matchups = [] then Inr (fst acc, snd acc @ [Failed_matchups w])
          else
            and_then (collect_scores players pos matchups [])
              (\<lambda>position_scores.
                 Inr (fst acc @ [week_entry w position_scores],
                      if position_scores \<noteq> [] then snd acc
                      else snd acc @ [No_scores pos w])))"

fun scan_weeks ::
  "(int \<Rightarrow> scored_matchup list option) \<Rightarrow> (string \<rightharpoonup> player_info json) \<Rightarrow> string
     \<Rightarrow> int list \<Rightarrow> weekly_score list \<times> message list
     \<Rightarrow> error + weekly_score list \<times> message list" where
  "scan_weeks get_matchups players pos [] acc = Inr acc"
| "scan_weeks get_matchups players pos (w # ws) acc =
     and_then (scan_week get_matchups players pos acc w)
       (scan_weeks get_matchups players pos ws)"

text \<open>
  \<open>find_scores_by_position\<close>: the weeks \<open>range(start_week, end_week + 1)\<close>; the result is
  the returned list with the printed messages, or the exception that ended the run.
\<close>

definition find_scores_by_position ::
  "(int \<Rightarrow> scored_matchup list option) \<Rightarrow> (string \<rightharpoonup> player_info json) \<Rightarrow> int \<Rightarrow> int \<Rightarrow> string
     \<Rightarrow> error + weekly_score list \<times> message list" where
  "find_scores_by_position get_matchups players start_week end_week pos =
     scan_weeks get_matchups players pos [start_week..end_week] ([], [])"

section \<open>Distance-bucketed aggregation: Kickers.py\<close>

record field_goal =
  play_id :: int
  kick_distance :: real
  field_goal_result :: string

definition bins :: "real list" where
  "bins = [0, 29, 39, 49, 54, 59, 99]"

definition labels :: "string list" where
  "labels = [''<30'', ''30-39'', ''40-49'', ''50-54'', ''55-59'', ''60+'']"

text \<open>
  \<open>pd.cut(x, bins=bins, labels=labels, right=False)\<close> on one value, as pandas documents
  it: with \<open>right=False\<close> the bins \<open>[b0, b1, b2, ...]\<close> are the intervals \<open>[b0, b1)\<close>,
  \<open>[b1, b2)\<close>, ..., closed on the left; a value in none of them gets no category (NaN).
\<close>

fun cut_left_closed :: "real list \<Rightarrow> string list \<Rightarrow> real \<Rightarrow> string option" where
  "cut_left_closed (lo # hi # bs) (l # ls) x =
     (if lo \<le> x \<and> x < hi then Some l else cut_left_closed (hi # bs) ls x)"
| "cut_left_closed _ _ x = None"

definition distance_bucket :: "field_goal \<Rightarrow> string option" where
  "distance_bucket fg = cut_left_closed bins labels (kick_distance fg)"

text \<open>
  A float64 as pandas computes the rate: a real number (rounding is not modelled) or
  one of the special values of IEEE 754. Division of two integer columns is true
  division, where \<open>0 / 0\<close> is NaN and \<open>n / 0\<close> is an infinity.
\<close>

datatype float64 = Finite real | PosInf | NegInf | NaN

definition true_divide :: "int \<Rightarrow> int \<Rightarrow> float64" where
  "true_divide a b =
     (if b \<noteq> 0 then Finite (real_of_int a / real_of_int b)
      else if a = 0 then NaN
      else if a > 0 then PosInf else NegInf)"

text \<open>Multiplication by a positive finite constant.\<close>

definition times_pos :: "float64 \<Rightarrow> real \<Rightarrow> float64" where
  "times_pos v c = (case v of Finite r \<Rightarrow> Finite (r * c) | PosInf \<Rightarrow> PosInf
                    | NegInf \<Rightarrow> NegInf | NaN \<Rightarrow> NaN)"

record summary_row =
  bucket :: string
  attempts :: int
  makes :: int
  success_rate :: float64

text \<open>
  One row of \<open>fg_summary\<close>: the group of a category (\<open>groupby\<close> on the categorical column
  keeps every category, an empty one with count 0), \<open>attempts\<close> the count of its
  \<open>play_id\<close>, \<open>makes\<close> the number of its results equal to \<open>'made'\<close>.
\<close>

definition summary_of :: "field_goal list \<Rightarrow> string \<Rightarrow> summary_row" where
  "summary_of field_goals l =
     (let grp = filter (\<lambda>fg. distance_bucket fg = Some l) field_goals;
          a = int (length grp);
          m = int (length (filter (\<lambda>fg. field_goal_result fg = ''made'') grp))
      in \<lparr>bucket = l, attempts = a, makes = m,
          success_rate = times_pos (true_divide m a) 100\<rparr>)"

definition analyze_field_goal_distances :: "field_goal list \<Rightarrow> summary_row list" where
  "analyze_field_goal_distances field_goals = map (summary_of field_goals) labels"

section \<open>Notions used to state the properties\<close>

subsection \<open>Lineups\<close>

text \<open>The players of a pool at a position, and the entries of a lineup in a slot.\<close>

definition pool_at :: "player list \<Rightarrow> string \<Rightarrow> player list" where
  "pool_at players pos = filter (\<lambda>p. position p = pos) players"

definition lineup_at :: "slotted_player list \<Rightarrow> string \<Rightarrow> slotted_player list" where
  "lineup_at lineup pos = filter (\<lambda>c. slot c = pos) lineup"

text \<open>What the optimizer takes for one item \<open>(pos, need)\<close> of the required-slot map.\<close>

definition top_at :: "player list \<Rightarrow> string \<times> int \<Rightarrow> slotted_player list" where
  "top_at players kv =
     map (with_slot (fst kv)) (slice_to (snd kv) (sort_score_desc (pool_at players (fst kv))))"

text \<open>A required-slot map is a dict (each key once); its counts are slot counts.\<close>

definition is_dict :: "('k \<times> 'v) list \<Rightarrow> bool" where
  "is_dict d \<longleftrightarrow> distinct (map fst d)"

definition nonneg_counts :: "(string \<times> int) list \<Rightarrow> bool" where
  "nonneg_counts required \<longleftrightarrow> (\<forall>kv\<in>set required. 0 \<le> snd kv)"

definition nonneg_scores :: "player list \<Rightarrow> bool" where
  "nonneg_scores players \<longleftrightarrow> (\<forall>p\<in>set players. 0 \<le> score p)"

text \<open>
  A selection from the pool that respects the per-position counts: its players, without
  their slots, are a sub-multiset of the pool (no player taken twice); every player
  stands in the slot of its own position, and that slot is a key of the map; and no slot
  holds more players than the map requires.
\<close>

definition valid_selection :: "player list \<Rightarrow> (string \<times> int) list \<Rightarrow> slotted_player list \<Rightarrow> bool" where
  "valid_selection players required sel \<longleftrightarrow>
     mset (map player.truncate sel) \<subseteq># mset players \<and>
     (\<forall>c\<in>set sel. slot c = position c \<and> slot c \<in> set (map fst required)) \<and>
     (\<forall>kv\<in>set required. int (length (lineup_at sel (fst kv))) \<le> snd kv)"

text \<open>The example of the specification, and a pool with too few players.\<close>

definition mk_player :: "string \<Rightarrow> string \<Rightarrow> real \<Rightarrow> player" where
  "mk_player pid pos s = \<lparr>player_id = pid, player_name = pid, position = pos, score = s\<rparr>"

definition example_pool :: "player list" where
  "example_pool =
     [mk_player ''a'' ''QB'' 20, mk_player ''b'' ''RB'' 15,
      mk_player ''c'' ''RB'' 10, mk_player ''d'' ''RB'' 5]"

definition example_required :: "(string \<times> int) list" where
  "example_required = [(''QB'', 1), (''RB'', 2)]"

definition example_selection :: "slotted_player list" where
  "example_selection =
     [with_slot ''RB'' (mk_player ''d'' ''RB'' 5), with_slot ''QB'' (mk_player ''a'' ''QB'' 20)]"

definition thin_pool :: "player list" where
  "thin_pool = [mk_player ''a'' ''QB'' 20, mk_player ''w'' ''WR'' 7]"

subsection \<open>Required slots\<close>

text \<open>\<open>league.get("roster_positions") or []\<close>\<close>

definition league_positions :: "league \<Rightarrow> string list" where
  "league_positions lg = (case roster_positions lg of None \<Rightarrow> [] | Some xs \<Rightarrow> xs)"

text \<open>
  The number of slots of a league that count for the position \<open>k\<close>: those outside
  BN, IR and TAXI whose normalized name is \<open>k\<close>.
\<close>

definition slot_count :: "string list \<Rightarrow> string \<Rightarrow> int" where
  "slot_count rp k = int (length (filter (\<lambda>pos. pos \<notin> set ignore \<and> normalize_pos pos = k) rp))"

definition example_league :: league where
  "example_league = \<lparr>roster_positions =
     Some [''QB'', ''RB'', ''RB'', ''WR'', ''WR'', ''FLEX'', ''DST'', ''BN'', ''BN'', ''IR'']\<rparr>"

subsection \<open>Weekly scores\<close>

text \<open>
  A week counts as fetched when the source goes on to read it: the fetch returned a
  list, and the list is not empty.
\<close>

definition fetched :: "(int \<Rightarrow> scored_matchup list option) \<Rightarrow> int \<Rightarrow> bool" where
  "fetched get_matchups w = (case get_matchups w of None \<Rightarrow> False | Some ms \<Rightarrow> ms \<noteq> [])"

text \<open>
  The position scores the source collects from the list of a week, or the exception it
  raises on the way. A week is readable when it raises nothing, that is when no entry of
  it has \<open>players_points\<close> that are \<open>null\<close> and no scored player a record that is \<open>null\<close>;
  \<open>scores_at\<close> are the scores of a readable week.
\<close>

definition week_scores ::
  "(int \<Rightarrow> scored_matchup list option) \<Rightarrow> (string \<rightharpoonup> player_info json) \<Rightarrow> string \<Rightarrow> int
     \<Rightarrow> error + real list" where
  "week_scores get_matchups players pos w =
     (case get_matchups w of None \<Rightarrow> Inr [] | Some ms \<Rightarrow> collect_scores players pos ms [])"

definition readable ::
  "(int \<Rightarrow> scored_matchup list option) \<Rightarrow> (string \<rightharpoonup> player_info json) \<Rightarrow> string \<Rightarrow> int \<Rightarrow> bool" where
  "readable get_matchups players pos w =
     (case week_scores get_matchups players pos w of Inl e \<Rightarrow> False | Inr xs \<Rightarrow> True)"

definition scores_at ::
  "(int \<Rightarrow> scored_matchup list option) \<Rightarrow> (string \<rightharpoonup> player_info json) \<Rightarrow> string \<Rightarrow> int
     \<Rightarrow> real list" where
  "scores_at get_matchups players pos w =
     (case week_scores get_matchups players pos w of Inl e \<Rightarrow> [] | Inr xs \<Rightarrow> xs)"

definition all_readable ::
  "(int \<Rightarrow> scored_matchup list option) \<Rightarrow> (string \<rightharpoonup> player_info json) \<Rightarrow> string \<Rightarrow> int \<Rightarrow> int
     \<Rightarrow> bool" where
  "all_readable get_matchups players pos start_week end_week =
     list_all (readable get_matchups players pos) [start_week..end_week]"

text \<open>What the source prints for a readable week.\<close>

definition week_messages ::
  "(int \<Rightarrow> scored_matchup list option) \<Rightarrow> (string \<rightharpoonup> player_info json) \<Rightarrow> string \<Rightarrow> int
     \<Rightarrow> message list" where
  "week_messages get_matchups players pos w =
     (if fetched get_matchups w
      then (if scores_at get_matchups players pos w \<noteq> [] then [] else [No_scores pos w])
      else [Failed_matchups w])"

text \<open>
  The week scores of the specification's example, as one week of eight kickers; a run over
  four weeks where the fetch of week 1 fails, week 2 is fetched and empty, week 3 has a
  tight end only and week 4 has two kickers; and a week whose entry has \<open>players_points\<close>
  that are \<open>null\<close>.
\<close>

definition example_scores :: "real list" where
  "example_scores = [8, 7, 6, 5, 4, 3, 2, 1]"

definition eight_kickers :: "(string \<times> real) list" where
  "eight_kickers =
     [(''k1'', 8), (''k2'', 7), (''k3'', 6), (''k4'', 5),
      (''k5'', 4), (''k6'', 3), (''k7'', 2), (''k8'', 1)]"

definition kicker_players :: "string \<rightharpoonup> player_info json" where
  "kicker_players pid =
     (if pid \<in> set (map fst eight_kickers) then Some (Present \<lparr>info_position = Some ''K''\<rparr>)
      else None)"

definition kicker_matchups :: "scored_matchup list" where
  "kicker_matchups = [\<lparr>players_points = Some (Present eight_kickers)\<rparr>]"

definition kicker_weeks :: "int \<Rightarrow> scored_matchup list option" where
  "kicker_weeks w = Some kicker_matchups"

definition example_players :: "string \<rightharpoonup> player_info json" where
  "example_players =
     [''k1'' \<mapsto> Present \<lparr>info_position = Some ''K''\<rparr>,
      ''k2'' \<mapsto> Present \<lparr>info_position = Some ''K''\<rparr>,
      ''t1'' \<mapsto> Present \<lparr>info_position = Some ''TE''\<rparr>]"

definition example_weeks :: "int \<Rightarrow> scored_matchup list option" where
  "example_weeks w =
     (if w = 1 then None
      else if w = 2 then Some []
      else if w = 3 then Some [\<lparr>players_points = Some (Present [(''t1'', 9)])\<rparr>]
      else Some [\<lparr>players_points = Some (Present [(''k1'', 8), (''t1'', 4), (''k2'', 11)])\<rparr>])"

definition null_weeks :: "int \<Rightarrow> scored_matchup list option" where
  "null_weeks w = Some [\<lparr>players_points = Some Null\<rparr>]"

subsection \<open>Standings\<close>

text \<open>The counters of a roster in the result of a run, and the messages of the run.\<close>

definition final_counters ::
  "error + (standings option \<times> message list) \<Rightarrow> int \<Rightarrow> counters option" where
  "final_counters r rid = (case r of Inr (Some st, msgs) \<Rightarrow> st rid | _ \<Rightarrow> None)"

definition final_messages :: "error + (standings option \<times> message list) \<Rightarrow> message list" where
  "final_messages r = (case r of Inr (st, msgs) \<Rightarrow> msgs | _ \<Rightarrow> [])"

text \<open>
  The table of counters a loop ends with (or the exception), whatever was printed; an
  entry whose opponent's points are resolved; a week whose fetch did not fail.
\<close>

definition outcome_table :: "error + progress \<Rightarrow> error + standings" where
  "outcome_table r = (case r of Inl e \<Rightarrow> Inl e | Inr pr \<Rightarrow> Inr (table pr))"

definition resolved :: "matchup list \<Rightarrow> matchup \<Rightarrow> bool" where
  "resolved matchups m \<longleftrightarrow> resolve_opponent matchups (matchup_id m) \<noteq> None"

definition fetch_ok :: "(int \<Rightarrow> matchup list option) \<Rightarrow> int \<Rightarrow> bool" where
  "fetch_ok get_matchups w \<longleftrightarrow> get_matchups w \<noteq> None"

text \<open>
  Two rosters of one division. In \<open>one_game\<close> they play each other, each entry naming
  the other roster as its opponent; in \<open>unresolved_entries\<close> neither entry has an
  opponent in the week's list. \<open>broken_weeks\<close> fails to fetch week 1.
\<close>

definition example_rosters :: "roster list" where
  "example_rosters =
     [\<lparr>roster_id = 1, settings = Some (Present \<lparr>settings_division = Some (Present 1)\<rparr>)\<rparr>,
      \<lparr>roster_id = 2, settings = Some (Present \<lparr>settings_division = Some (Present 1)\<rparr>)\<rparr>]"

definition one_game :: "matchup list" where
  "one_game =
     [\<lparr>m_roster_id = 1, points = 10, matchup_id = Some 2\<rparr>,
      \<lparr>m_roster_id = 2, points = 5, matchup_id = Some 1\<rparr>]"

definition one_game_each_week :: "int \<Rightarrow> matchup list option" where
  "one_game_each_week w = Some one_game"

text \<open>
  The same game when \<open>matchup_id\<close> is the grouping identifier of the specification's data
  model, shared by the two entries of a pairing.
\<close>

definition one_game_shared_id :: "matchup list" where
  "one_game_shared_id =
     [\<lparr>m_roster_id = 1, points = 10, matchup_id = Some 1\<rparr>,
      \<lparr>m_roster_id = 2, points = 5, matchup_id = Some 1\<rparr>]"

definition shared_id_each_week :: "int \<Rightarrow> matchup list option" where
  "shared_id_each_week w = Some one_game_shared_id"

definition unresolved_entries :: "matchup list" where
  "unresolved_entries =
     [\<lparr>m_roster_id = 1, points = 10, matchup_id = None\<rparr>,
      \<lparr>m_roster_id = 2, points = 5, matchup_id = Some 7\<rparr>]"

definition broken_weeks :: "int \<Rightarrow> matchup list option" where
  "broken_weeks w = (if w = 1 then None else Some unresolved_entries)"

definition start_progress :: progress where
  "start_progress = \<lparr>table = [1 \<mapsto> zero_counters, 2 \<mapsto> zero_counters], printed = []\<rparr>"

subsection \<open>Field goals\<close>

definition attempt :: "real \<Rightarrow> string \<Rightarrow> field_goal" where
  "attempt d r = \<lparr>play_id = 1, kick_distance = d, field_goal_result = r\<rparr>"

definition example_kicks :: "field_goal list" where
  "example_kicks = [attempt 25 ''made'', attempt 25 ''missed'', attempt 45 ''made'']"

section \<open>Properties of the lineup optimizer\<close>

subsection \<open>The lineup, slot by slot\<close>

lemma group_player_foldl:
  "foldl (group_player required) bp players pos =
     bp pos @ (if pos \<in> set (map fst required) then pool_at players pos else [])"
  by (induction players arbitrary: bp) (auto simp: group_player_def pool_at_def)

lemma choose_slot_foldl:
  "foldl (choose_slot bp) chosen required =
     chosen @ concat (map (\<lambda>kv. map (with_slot (fst kv)) (slice_to (snd kv) (bp (fst kv)))) required)"
  by (induction required arbitrary: chosen) (auto simp: choose_slot_def)

lemma chosen_concat:
  "fst (select_fixed_best players required) = concat (map (top_at players) required)"
proof -
  have "\<And>kv. kv \<in> set required \<Longrightarrow>
          foldl (group_player required) (\<lambda>_. []) players (fst kv) = pool_at players (fst kv)"
    by (simp add: group_player_foldl)
  then have eq: "map (\<lambda>kv. map (with_slot (fst kv))
            (slice_to (snd kv) (sort_score_desc (foldl (group_player required) (\<lambda>_. []) players (fst kv))))) required
        = map (top_at players) required"
    by (intro map_cong refl) (simp add: top_at_def)
  show ?thesis
    by (simp only: select_fixed_best_def Let_def choose_slot_foldl eq fst_conv append_Nil)
qed

lemma total_sum: "snd (select_fixed_best players required) = sum_list (map score (fst (select_fixed_best players required)))"
  by (simp add: select_fixed_best_def Let_def)

lemma slot_top_at: "c \<in> set (top_at players kv) \<Longrightarrow> slot c = fst kv"
  by (auto simp: top_at_def with_slot_def)

lemma set_slice_to: "set (slice_to n xs) \<subseteq> set xs"
  by (auto simp: slice_to_def dest: in_set_takeD)

lemma position_top_at: "c \<in> set (top_at players kv) \<Longrightarrow> position c = fst kv"
  using set_slice_to by (fastforce simp: top_at_def with_slot_def sort_score_desc_def pool_at_def)

lemma lineup_at_concat:
  "distinct (map fst required) \<Longrightarrow>
   lineup_at (concat (map (top_at players) required)) pos =
     (case map_of required pos of None \<Rightarrow> [] | Some need \<Rightarrow> top_at players (pos, need))"
proof (induction required)
  case Nil
  then show ?case by (simp add: lineup_at_def)
next
  case (Cons kv required)
  obtain k n where kv: "kv = (k, n)" by (cases kv)
  have same: "filter (\<lambda>c. slot c = k) (top_at players (k, n)) = top_at players (k, n)"
    by (rule filter_True) (auto dest: slot_top_at)
  have other: "pos \<noteq> k \<Longrightarrow> filter (\<lambda>c. slot c = pos) (top_at players (k, n)) = []"
    by (auto simp: filter_empty_conv dest: slot_top_at)
  show ?case
  proof (cases "pos = k")
    case True
    with Cons.prems kv have "map_of required pos = None"
      by (simp add: map_of_eq_None_iff)
    with Cons True kv same show ?thesis by (simp add: lineup_at_def)
  next
    case False
    with Cons kv other show ?thesis by (simp add: lineup_at_def)
  qed
qed

lemma lineup_at_select:
  assumes "distinct (map fst required)"
  shows "lineup_at (fst (select_fixed_best players required)) pos =
           (case map_of required pos of None \<Rightarrow> [] | Some need \<Rightarrow> top_at players (pos, need))"
  using assms by (simp only: chosen_concat lineup_at_concat)

lemma length_slice_to: "0 \<le> n \<Longrightarrow> int (length (slice_to n xs)) \<le> n"
  by (simp add: slice_to_def)

lemma slice_to_all: "int (length xs) \<le> n \<Longrightarrow> slice_to n xs = xs"
  by (simp add: slice_to_def)

subsection \<open>The best players of a slot\<close>

lemma sum_list_map_concat:
  fixes f :: "'a \<Rightarrow> real"
  shows "sum_list (map f (concat xss)) = sum_list (map (\<lambda>xs. sum_list (map f xs)) xss)"
  by (induction xss) simp_all

lemma score_truncate: "score (player.truncate c) = score c"
  by (simp add: player.truncate_def)

lemma position_truncate: "position (player.truncate c) = position c"
  by (simp add: player.truncate_def)

lemma score_with_slot: "score (with_slot pos p) = score p"
  by (simp add: with_slot_def)

lemma top_k_optimal:
  fixes f :: "'a \<Rightarrow> real"
  assumes "sorted (map (\<lambda>x. - f x) ys)" and "\<forall>y\<in>set ys. 0 \<le> f y"
    and "M \<subseteq># mset ys" and "size M \<le> k"
  shows "sum_mset (image_mset f M) \<le> sum_list (map f (take k ys))"
  using assms
proof (induction ys arbitrary: k M)
  case Nil
  then show ?case by simp
next
  case (Cons y ys)
  have srt: "sorted (map (\<lambda>x. - f x) ys)" and nn: "\<forall>z\<in>set ys. 0 \<le> f z"
    and ymax: "\<forall>z\<in>set ys. f z \<le> f y" and y0: "0 \<le> f y"
    using Cons.prems(1,2) by auto
  show ?case
  proof (cases k)
    case 0
    with Cons.prems(4) show ?thesis by simp
  next
    case (Suc k')
    show ?thesis
    proof (cases "y \<in># M")
      case True
      have sub: "M - {#y#} \<subseteq># mset ys"
        using Cons.prems(3) by (simp add: subset_eq_diff_conv)
      have sz: "size (M - {#y#}) \<le> k'"
        using True Cons.prems(4) Suc by (simp add: size_Diff_singleton)
      have "sum_mset (image_mset f (M - {#y#})) \<le> sum_list (map f (take k' ys))"
        by (rule Cons.IH [OF srt nn sub sz])
      moreover have "sum_mset (image_mset f M) = f y + sum_mset (image_mset f (M - {#y#}))"
        using True by (metis image_mset_add_mset insert_DiffM sum_mset.add_mset)
      ultimately show ?thesis using Suc by simp
    next
      case False
      have sub: "M \<subseteq># mset ys"
        using False Cons.prems(3)
        by (metis diff_single_trivial mset.simps(2) subset_eq_diff_conv add_mset_add_single)
      show ?thesis
      proof (cases "size M \<le> k'")
        case True
        have "sum_mset (image_mset f M) \<le> sum_list (map f (take k' ys))"
          by (rule Cons.IH [OF srt nn sub True])
        with y0 Suc show ?thesis by simp
      next
        case False
        then have "M \<noteq> {#}" by auto
        then obtain m where m: "m \<in># M" by auto
        have mle: "f m \<le> f y"
        proof -
          from sub m have "m \<in># mset ys" by (rule mset_subset_eqD)
          then have "m \<in> set ys" by simp
          with ymax show ?thesis by blast
        qed
        have sub': "M - {#m#} \<subseteq># mset ys"
          using sub by (meson diff_subset_eq_self subset_mset.order_trans)
        have sz: "size (M - {#m#}) \<le> k'"
          using m Cons.prems(4) Suc by (simp add: size_Diff_singleton)
        have "sum_mset (image_mset f (M - {#m#})) \<le> sum_list (map f (take k' ys))"
          by (rule Cons.IH [OF srt nn sub' sz])
        moreover have "sum_mset (image_mset f M) = f m + sum_mset (image_mset f (M - {#m#}))"
          using m by (metis image_mset_add_mset insert_DiffM sum_mset.add_mset)
        ultimately show ?thesis using Suc mle by simp
      qed
    qed
  qed
qed

lemma sum_list_indicator:
  fixes v :: real
  shows "distinct ks \<Longrightarrow> x \<in> set ks \<Longrightarrow> sum_list (map (\<lambda>k. if x = k then v else 0) ks) = v"
proof (induction ks)
  case Nil then show ?case by simp
next
  case (Cons k ks)
  have z: "x \<notin> set ks \<Longrightarrow> sum_list (map (\<lambda>k. if x = k then v else 0) ks) = 0"
    by (induction ks) auto
  from Cons z show ?case by auto
qed

lemma sum_by_key:
  fixes f :: "'a \<Rightarrow> real"
  assumes "distinct ks" and "\<forall>c\<in>set sel. g c \<in> set ks"
  shows "sum_list (map f sel) = sum_list (map (\<lambda>k. sum_list (map f (filter (\<lambda>c. g c = k) sel))) ks)"
  using assms(2)
proof (induction sel)
  case Nil
  then show ?case by simp
next
  case (Cons c sel)
  have "sum_list (map (\<lambda>k. sum_list (map f (filter (\<lambda>c. g c = k) (c # sel)))) ks)
      = sum_list (map (\<lambda>k. (if g c = k then f c else 0) + sum_list (map f (filter (\<lambda>c. g c = k) sel))) ks)"
    by (intro arg_cong [where f = sum_list] map_cong refl) simp
  also have "\<dots> = sum_list (map (\<lambda>k. if g c = k then f c else 0) ks)
                 + sum_list (map (\<lambda>k. sum_list (map f (filter (\<lambda>c. g c = k) sel))) ks)"
    by (simp add: sum_list_addf)
  also have "\<dots> = f c + sum_list (map f sel)"
    using Cons assms(1) by (simp add: sum_list_indicator)
  finally show ?case by simp
qed

lemma per_slot_bound:
  assumes nn: "\<forall>p\<in>set players. 0 \<le> score p"
    and sub: "mset (map player.truncate sel) \<subseteq># mset players"
    and elig: "\<forall>c\<in>set sel. slot c = position c"
    and cnt: "int (length (lineup_at sel k)) \<le> n"
  shows "sum_list (map score (lineup_at sel k)) \<le> sum_list (map score (top_at players (k, n)))"
proof -
  let ?ys = "sort_score_desc (pool_at players k)"
  let ?T = "map player.truncate (lineup_at sel k)"
  have "filter (\<lambda>c. slot c = k) sel = filter (\<lambda>c. position c = k) sel"
    using elig by (intro filter_cong refl) simp
  then have T: "?T = filter (\<lambda>p. position p = k) (map player.truncate sel)"
    by (simp add: lineup_at_def filter_map comp_def position_truncate)
  have "mset ?T \<subseteq># mset (pool_at players k)"
    unfolding T pool_at_def mset_filter using sub by (rule multiset_filter_mono)
  then have M: "mset ?T \<subseteq># mset ?ys"
    by (simp add: sort_score_desc_def)
  have srt: "sorted (map (\<lambda>x. - score x) ?ys)"
    by (simp add: sort_score_desc_def)
  have pos: "\<forall>y\<in>set ?ys. 0 \<le> score y"
    using nn by (simp add: sort_score_desc_def pool_at_def)
  have "0 \<le> n" using cnt by linarith
  with cnt have sz: "size (mset ?T) \<le> nat n" by simp
  have "sum_mset (image_mset score (mset ?T)) \<le> sum_list (map score (take (nat n) ?ys))"
    by (rule top_k_optimal [OF srt pos M sz])
  moreover have "sum_mset (image_mset score (mset ?T)) = sum_list (map score (lineup_at sel k))"
  proof -
    have "image_mset score (mset ?T) = mset (map score (lineup_at sel k))"
      by (simp add: image_mset.compositionality comp_def score_truncate)
    then show ?thesis by (simp only: sum_mset_sum_list)
  qed
  moreover have "sum_list (map score (top_at players (k, n))) = sum_list (map score (take (nat n) ?ys))"
    using \<open>0 \<le> n\<close> by (simp add: top_at_def slice_to_def comp_def score_with_slot)
  ultimately show ?thesis by simp
qed

text \<open>
  C1. For every pool of players with non-negative scores and every required-slot map,
  the total returned by \<open>select_fixed_best\<close> is at least the total score of any other
  selection from the same pool that respects the same per-position counts (at most
  \<open>required[pos]\<close> players in the slot \<open>pos\<close>, each selected player in the slot of its own
  position).
\<close>

theorem select_fixed_best_optimal:
  assumes "is_dict required"
    and "nonneg_scores players"
    and val: "valid_selection players required sel"
  shows "sum_list (map score sel) \<le> snd (select_fixed_best players required)"
proof -
  have dist: "distinct (map fst required)"
    using assms(1) by (simp add: is_dict_def)
  have nn: "\<forall>p\<in>set players. 0 \<le> score p"
    using assms(2) by (simp add: nonneg_scores_def)
  have sub: "mset (map player.truncate sel) \<subseteq># mset players"
    and elig: "\<forall>c\<in>set sel. slot c = position c"
    and keys: "\<forall>c\<in>set sel. slot c \<in> set (map fst required)"
    and cnt: "\<forall>kv\<in>set required. int (length (lineup_at sel (fst kv))) \<le> snd kv"
    using val unfolding valid_selection_def by blast+
  have "sum_list (map score sel)
      = sum_list (map (\<lambda>k. sum_list (map score (filter (\<lambda>c. slot c = k) sel))) (map fst required))"
    by (rule sum_by_key [OF dist keys])
  also have "\<dots> = sum_list (map (\<lambda>kv. sum_list (map score (lineup_at sel (fst kv)))) required)"
    by (simp add: comp_def lineup_at_def)
  also have "\<dots> \<le> sum_list (map (\<lambda>kv. sum_list (map score (top_at players kv))) required)"
  proof (rule sum_list_mono)
    fix kv assume "kv \<in> set required"
    with cnt have "int (length (lineup_at sel (fst kv))) \<le> snd kv" by blast
    from per_slot_bound [OF nn sub elig this]
    show "sum_list (map score (lineup_at sel (fst kv))) \<le> sum_list (map score (top_at players kv))"
      by simp
  qed
  also have "\<dots> = sum_list (map score (concat (map (top_at players) required)))"
    by (simp add: sum_list_map_concat comp_def)
  also have "\<dots> = snd (select_fixed_best players required)"
    by (simp only: total_sum chosen_concat)
  finally show ?thesis .
qed

text \<open>
  The theorem at the example of the specification: the selection RB(5), QB(20) totals
  25, the optimizer's lineup QB(20), RB(15), RB(10) totals 45.
\<close>

theorem select_fixed_best_optimal_witness:
  "is_dict example_required \<and> nonneg_scores example_pool
   \<and> valid_selection example_pool example_required example_selection
   \<and> sum_list (map score example_selection) = 25
   \<and> snd (select_fixed_best example_pool example_required) = 45
   \<and> sum_list (map score example_selection)
        \<le> snd (select_fixed_best example_pool example_required)"
proof -
  have h1: "is_dict example_required"
    by (simp add: is_dict_def example_required_def)
  have h2: "nonneg_scores example_pool"
    by (simp add: nonneg_scores_def example_pool_def mk_player_def)
  have h3: "valid_selection example_pool example_required example_selection"
    by (simp add: valid_selection_def example_pool_def example_required_def
        example_selection_def mk_player_def with_slot_def lineup_at_def player.truncate_def)
  have v1: "sum_list (map score example_selection) = 25"
    by (simp add: example_selection_def mk_player_def with_slot_def)
  have v2: "snd (select_fixed_best example_pool example_required) = 45"
    by (simp add: select_fixed_best_def example_pool_def example_required_def mk_player_def
        group_player_def choose_slot_def slice_to_def sort_score_desc_def with_slot_def)
  from h1 h2 h3 v1 v2 select_fixed_best_optimal [OF h1 h2 h3] show ?thesis by simp
qed

text \<open>
  C2. For every pool and every required-slot map (a dict of slot counts, none negative),
  the lineup returned by \<open>select_fixed_best\<close> holds at most \<open>required[pos]\<close> players in each
  slot \<open>pos\<close> (none in a slot that is not a key of the map), and the normalized position of
  every returned player equals the slot it is assigned to.
\<close>

theorem select_fixed_best_respects_slots:
  assumes "is_dict required"
    and "nonneg_counts required"
  shows "(\<forall>pos. int (length (lineup_at (fst (select_fixed_best players required)) pos))
                 \<le> dict_get required pos 0)
       \<and> list_all (\<lambda>c. position c = slot c) (fst (select_fixed_best players required))"
proof (intro conjI allI)
  have dist: "distinct (map fst required)"
    using assms(1) by (simp add: is_dict_def)
  have nonneg: "\<forall>kv\<in>set required. 0 \<le> snd kv"
    using assms(2) by (simp add: nonneg_counts_def)
  fix pos
  show "int (length (lineup_at (fst (select_fixed_best players required)) pos))
          \<le> dict_get required pos 0"
  proof (cases "map_of required pos")
    case None
    then show ?thesis by (simp add: lineup_at_select [OF dist] dict_get_def)
  next
    case (Some need)
    then have "(pos, need) \<in> set required" by (rule map_of_SomeD)
    with nonneg have "0 \<le> need" by fastforce
    then have "int (length (top_at players (pos, need))) \<le> need"
      by (simp add: top_at_def length_slice_to)
    with Some show ?thesis by (simp add: lineup_at_select [OF dist] dict_get_def)
  qed
next
  have "position c = slot c" if "c \<in> set (fst (select_fixed_best players required))" for c
  proof -
    from that obtain kv where "c \<in> set (top_at players kv)"
      by (auto simp: chosen_concat)
    then show ?thesis by (simp add: position_top_at slot_top_at)
  qed
  then show "list_all (\<lambda>c. position c = slot c) (fst (select_fixed_best players required))"
    by (simp add: list_all_iff)
qed

text \<open>
  The theorem at the example of the specification: one player in the slot QB, two in
  the slot RB (of three in the pool), none in a slot WR that the map does not have.
\<close>

theorem select_fixed_best_respects_slots_witness:
  "is_dict example_required \<and> nonneg_counts example_required
   \<and> length (lineup_at (fst (select_fixed_best example_pool example_required)) ''QB'') = 1
   \<and> length (lineup_at (fst (select_fixed_best example_pool example_required)) ''RB'') = 2
   \<and> length (lineup_at (fst (select_fixed_best example_pool example_required)) ''WR'') = 0
   \<and> list_all (\<lambda>c. position c = slot c) (fst (select_fixed_best example_pool example_required))"
proof -
  have h1: "is_dict example_required"
    by (simp add: is_dict_def example_required_def)
  have h2: "nonneg_counts example_required"
    by (simp add: nonneg_counts_def example_required_def)
  have v: "fst (select_fixed_best example_pool example_required) =
      [with_slot ''QB'' (mk_player ''a'' ''QB'' 20), with_slot ''RB'' (mk_player ''b'' ''RB'' 15),
       with_slot ''RB'' (mk_player ''c'' ''RB'' 10)]"
    by (simp add: select_fixed_best_def example_pool_def example_required_def mk_player_def
        group_player_def choose_slot_def slice_to_def sort_score_desc_def with_slot_def)
  have c: "length (lineup_at (fst (select_fixed_best example_pool example_required)) ''QB'') = 1
     \<and> length (lineup_at (fst (select_fixed_best example_pool example_required)) ''RB'') = 2
     \<and> length (lineup_at (fst (select_fixed_best example_pool example_required)) ''WR'') = 0"
    unfolding v by (simp add: lineup_at_def with_slot_def)
  from h1 h2 c select_fixed_best_respects_slots [OF h1 h2, of example_pool]
  show ?thesis by simp
qed

text \<open>
  C3. When the pool has no more players at a position than the required-slot map asks
  for (in particular when it has fewer), the lineup of \<open>select_fixed_best\<close> holds in that
  slot exactly the players the pool has at the position, best first: as many entries as
  there are players, none added; the function is total, so nothing is raised. A position
  with no player in the pool contributes no entry and a score of zero.
\<close>

theorem select_fixed_best_partial:
  assumes "is_dict required"
  shows "((pos, need) \<in> set required \<and> int (length (pool_at players pos)) \<le> need \<longrightarrow>
            lineup_at (fst (select_fixed_best players required)) pos
              = map (with_slot pos) (sort_score_desc (pool_at players pos))
          \<and> length (lineup_at (fst (select_fixed_best players required)) pos)
              = length (pool_at players pos))
       \<and> (pool_at players pos = [] \<longrightarrow>
            lineup_at (fst (select_fixed_best players required)) pos = []
          \<and> sum_list (map score (lineup_at (fst (select_fixed_best players required)) pos)) = 0)"
proof (intro conjI impI)
  have dist: "distinct (map fst required)"
    using assms by (simp add: is_dict_def)
  {
    assume a: "(pos, need) \<in> set required \<and> int (length (pool_at players pos)) \<le> need"
    then have m: "map_of required pos = Some need"
      using dist by simp
    have "slice_to need (sort_score_desc (pool_at players pos)) = sort_score_desc (pool_at players pos)"
      using a by (intro slice_to_all) (simp add: sort_score_desc_def)
    with m show eq: "lineup_at (fst (select_fixed_best players required)) pos
                = map (with_slot pos) (sort_score_desc (pool_at players pos))"
      by (simp add: lineup_at_select [OF dist] top_at_def)
    show "length (lineup_at (fst (select_fixed_best players required)) pos)
                = length (pool_at players pos)"
      by (simp add: eq sort_score_desc_def)
  }
  {
    assume e: "pool_at players pos = []"
    have "top_at players (pos, n) = []" for n
      by (simp add: top_at_def e sort_score_desc_def slice_to_def)
    then show e2: "lineup_at (fst (select_fixed_best players required)) pos = []"
      by (simp add: lineup_at_select [OF dist] split: option.split)
    show "sum_list (map score (lineup_at (fst (select_fixed_best players required)) pos)) = 0"
      by (simp add: e2)
  }
qed

text \<open>
  The theorem on a pool with one WR where three are required, and no TE at all.
\<close>

theorem select_fixed_best_partial_witness:
  "is_dict FIXED_REQUIRED
   \<and> (''WR'', 3) \<in> set FIXED_REQUIRED \<and> int (length (pool_at thin_pool ''WR'')) \<le> 3
   \<and> lineup_at (fst (select_fixed_best thin_pool FIXED_REQUIRED)) ''WR''
        = [with_slot ''WR'' (mk_player ''w'' ''WR'' 7)]
   \<and> pool_at thin_pool ''TE'' = []
   \<and> lineup_at (fst (select_fixed_best thin_pool FIXED_REQUIRED)) ''TE'' = []
   \<and> sum_list (map score (lineup_at (fst (select_fixed_best thin_pool FIXED_REQUIRED)) ''TE'')) = 0"
proof -
  have h1: "is_dict FIXED_REQUIRED"
    by (simp add: is_dict_def FIXED_REQUIRED_def)
  have h2: "(''WR'', 3) \<in> set FIXED_REQUIRED \<and> int (length (pool_at thin_pool ''WR'')) \<le> 3"
    by (simp add: FIXED_REQUIRED_def pool_at_def thin_pool_def mk_player_def)
  have h3: "pool_at thin_pool ''TE'' = []"
    by (simp add: pool_at_def thin_pool_def mk_player_def)
  have s: "sort_score_desc (pool_at thin_pool ''WR'') = [mk_player ''w'' ''WR'' 7]"
    by (simp add: sort_score_desc_def pool_at_def thin_pool_def mk_player_def)
  from h1 h2 h3 s
    select_fixed_best_partial [OF h1, of "''WR''" 3 thin_pool]
    select_fixed_best_partial [OF h1, of "''TE''" 1 thin_pool]
  show ?thesis by simp
qed

section \<open>Properties of the required-slot map\<close>

lemma dict_get_update:
  "dict_get (AList.update k v d) k' dflt = (if k' = k then v else dict_get d k' dflt)"
  by (simp add: dict_get_def update_conv')

lemma count_slot_get:
  "k \<in> set allowed \<Longrightarrow>
   dict_get (count_slot counts pos) k 0 = dict_get counts k 0 + slot_count [pos] k"
  by (auto simp: count_slot_def Let_def dict_get_update slot_count_def)

lemma count_slot_keys:
  "fst ` set (count_slot counts pos) \<subseteq> fst ` set counts \<union> set allowed"
  by (auto simp: count_slot_def Let_def dom_update)

lemma count_slot_distinct:
  "distinct (map fst counts) \<Longrightarrow> distinct (map fst (count_slot counts pos))"
  by (simp add: count_slot_def Let_def distinct_update)

lemma slot_count_Cons: "slot_count (pos # rp) k = slot_count [pos] k + slot_count rp k"
  by (simp add: slot_count_def)

lemma count_loop_get:
  "k \<in> set allowed \<Longrightarrow>
   dict_get (foldl count_slot counts rp) k 0 = dict_get counts k 0 + slot_count rp k"
proof (induction rp arbitrary: counts)
  case Nil
  then show ?case by (simp add: slot_count_def)
next
  case (Cons pos rp)
  then show ?case
    by (simp add: count_slot_get slot_count_Cons [of pos rp])
qed

lemma count_loop_keys:
  "fst ` set (foldl count_slot counts rp) \<subseteq> fst ` set counts \<union> set allowed"
proof (induction rp arbitrary: counts)
  case Nil
  then show ?case by simp
next
  case (Cons pos rp)
  from Cons [of "count_slot counts pos"] count_slot_keys [of counts pos]
  show ?case by auto
qed

lemma count_loop_distinct:
  "distinct (map fst counts) \<Longrightarrow> distinct (map fst (foldl count_slot counts rp))"
  by (induction rp arbitrary: counts) (simp_all add: count_slot_distinct)

lemma fallback_keys: "fst ` set (fallback counts kv) \<subseteq> insert (fst kv) (fst ` set counts)"
  by (auto simp: fallback_def dom_update)

lemma fallback_distinct:
  "distinct (map fst counts) \<Longrightarrow> distinct (map fst (fallback counts kv))"
  by (simp add: fallback_def distinct_update)

lemma fallback_map_of:
  "map_of (fallback counts kv) k =
     (if k = fst kv \<and> dict_get counts k 0 = 0 then Some (snd kv) else map_of counts k)"
  by (auto simp: fallback_def update_conv')

lemma fallback_loop_map_of:
  "distinct (map fst kvs) \<Longrightarrow>
   map_of (foldl fallback counts kvs) k =
     (if k \<in> fst ` set kvs \<and> dict_get counts k 0 = 0 then map_of kvs k else map_of counts k)"
proof (induction kvs arbitrary: counts)
  case Nil
  then show ?case by simp
next
  case (Cons kv kvs)
  obtain k' v where kv: "kv = (k', v)" by (cases kv)
  have notin: "k' \<notin> fst ` set kvs" and dist: "distinct (map fst kvs)"
    using Cons.prems kv by auto
  have get: "dict_get (fallback counts (k', v)) k 0 =
      (if k = k' \<and> dict_get counts k 0 = 0 then v else dict_get counts k 0)"
    by (auto simp: dict_get_def fallback_map_of)
  show ?case
  proof (cases "k = k'")
    case True
    with notin have "k \<notin> fst ` set kvs" by simp
    then have "map_of (foldl fallback (fallback counts kv) kvs) k = map_of (fallback counts kv) k"
      by (simp add: Cons.IH [OF dist])
    moreover have "map_of (fallback counts kv) k = (if dict_get counts k 0 = 0 then Some v else map_of counts k)"
      using True kv by (simp add: fallback_map_of)
    ultimately show ?thesis
      using True kv by simp
  next
    case False
    have "map_of (foldl fallback (fallback counts kv) kvs) k =
        (if k \<in> fst ` set kvs \<and> dict_get counts k 0 = 0 then map_of kvs k else map_of counts k)"
      using False kv by (simp add: Cons.IH [OF dist] fallback_map_of get)
    then show ?thesis
      using False kv by simp
  qed
qed

lemma fallback_loop_keys:
  "fst ` set (foldl fallback counts kvs) \<subseteq> fst ` set counts \<union> fst ` set kvs"
proof (induction kvs arbitrary: counts)
  case Nil
  then show ?case by simp
next
  case (Cons kv kvs)
  from Cons [of "fallback counts kv"] fallback_keys [of counts kv]
  show ?case by auto
qed

lemma fallback_loop_distinct:
  "distinct (map fst counts) \<Longrightarrow> distinct (map fst (foldl fallback counts kvs))"
  by (induction kvs arbitrary: counts) (simp_all add: fallback_distinct)

text \<open>
  C9. For every league configuration, the map computed by \<open>compute_required_from_league\<close>
  has exactly the six keys QB, RB, WR, TE, DEF and K (each once), and the count of each
  key is the number of matching normalized slots in the league's \<open>roster_positions\<close>
  (BN, IR and TAXI ignored; a flex-like slot matches no key) when that number is not
  zero, and the fixed default of the position otherwise.
\<close>

theorem compute_required_from_league_counts:
  "set (map fst (compute_required_from_league lg))
     = {''QB'', ''RB'', ''WR'', ''TE'', ''DEF'', ''K''}
   \<and> is_dict (compute_required_from_league lg)
   \<and> (\<forall>k. map_of (compute_required_from_league lg) k =
          (if k \<in> {''QB'', ''RB'', ''WR'', ''TE'', ''DEF'', ''K''}
           then Some (if slot_count (league_positions lg) k \<noteq> 0
                      then slot_count (league_positions lg) k
                      else dict_get FIXED_REQUIRED k 0)
           else None))"
proof -
  let ?rp = "league_positions lg"
  let ?c = "foldl count_slot [] ?rp"
  let ?R = "compute_required_from_league lg"
  have R: "?R = foldl fallback ?c FIXED_REQUIRED"
    by (simp add: compute_required_from_league_def league_positions_def)
  have six: "fst ` set FIXED_REQUIRED = {''QB'', ''RB'', ''WR'', ''TE'', ''DEF'', ''K''}"
    by (simp add: FIXED_REQUIRED_def)
  have al: "set allowed = {''QB'', ''RB'', ''WR'', ''TE'', ''DEF'', ''K''}"
    by (simp add: allowed_def FIXED_REQUIRED_def)
  have dF: "distinct (map fst FIXED_REQUIRED)"
    by (simp add: FIXED_REQUIRED_def)
  have ckeys: "fst ` set ?c \<subseteq> set allowed"
    using count_loop_keys [of "[]" ?rp] by simp
  have cget: "dict_get ?c k 0 = slot_count ?rp k" if "k \<in> set allowed" for k
    using count_loop_get [OF that, of "[]" ?rp] by (simp add: dict_get_def)
  have m: "map_of ?R k =
          (if k \<in> {''QB'', ''RB'', ''WR'', ''TE'', ''DEF'', ''K''}
           then Some (if slot_count ?rp k \<noteq> 0 then slot_count ?rp k
                      else dict_get FIXED_REQUIRED k 0)
           else None)" for k
  proof (cases "k \<in> set allowed")
    case True
    then have kF: "k \<in> fst ` set FIXED_REQUIRED" using six al by simp
    then obtain v where v: "map_of FIXED_REQUIRED k = Some v"
      by (metis domD dom_map_of_conv_image_fst)
    show ?thesis
    proof (cases "slot_count ?rp k = 0")
      case z: True
      with cget [OF True] have c0: "dict_get ?c k 0 = 0" by simp
      from v have "dict_get FIXED_REQUIRED k 0 = v" by (simp add: dict_get_def)
      with True kF v z c0 show ?thesis
        using al by (simp add: R fallback_loop_map_of [OF dF])
    next
      case nz: False
      with cget [OF True] have c1: "dict_get ?c k 0 \<noteq> 0" by simp
      then obtain n where n: "map_of ?c k = Some n"
        by (cases "map_of ?c k") (auto simp: dict_get_def)
      then have "dict_get ?c k 0 = n" by (simp add: dict_get_def)
      with cget [OF True] have "n = slot_count ?rp k" by simp
      with c1 n nz True show ?thesis
        using al by (simp add: R fallback_loop_map_of [OF dF])
    qed
  next
    case False
    then have "k \<notin> fst ` set ?c" using ckeys by blast
    then have "map_of ?c k = None" by (simp add: map_of_eq_None_iff)
    with False show ?thesis
      using al six by (simp add: R fallback_loop_map_of [OF dF])
  qed
  have keys: "set (map fst ?R) = {''QB'', ''RB'', ''WR'', ''TE'', ''DEF'', ''K''}"
  proof -
    have "fst ` set ?R = dom (map_of ?R)" by (simp add: dom_map_of_conv_image_fst)
    also have "\<dots> = {''QB'', ''RB'', ''WR'', ''TE'', ''DEF'', ''K''}"
      unfolding dom_def using m by (auto split: if_splits)
    finally show ?thesis by simp
  qed
  have "is_dict ?R"
    unfolding is_dict_def R by (intro fallback_loop_distinct count_loop_distinct) simp
  with keys m show ?thesis by blast
qed

text \<open>
  A league with one QB, two RB, two WR, a flex slot, a DST and bench slots: TE and K
  come from the default, the flex slot and the bench count for nothing.
\<close>

lemma compute_required_example:
  "compute_required_from_league example_league =
     [(''QB'', 1), (''RB'', 2), (''WR'', 2), (''DEF'', 1), (''TE'', 1), (''K'', 1)]"
  by (simp add: compute_required_from_league_def example_league_def count_slot_def fallback_def
      ignore_def allowed_def FIXED_REQUIRED_def normalize_pos_def POS_ALIAS_def dict_get_def)

subsection \<open>The computed map is a well-formed required-slot map\<close>

text \<open>
  Every map that \<open>compute_required_from_league\<close> returns, the only one the program hands to
  \<open>select_fixed_best\<close>, is a dict of counts none of which is negative.
\<close>

lemma set_update_cases:
  "kv \<in> set (AList.update k v al) \<Longrightarrow> kv = (k, v) \<or> kv \<in> set al"
  by (induction al) (auto split: if_splits)

lemma dict_get_nonneg:
  "nonneg_counts counts \<Longrightarrow> 0 \<le> dict_get counts k 0"
proof (cases "map_of counts k")
  case None
  then show ?thesis by (simp add: dict_get_def)
next
  case (Some v)
  assume "nonneg_counts counts"
  moreover from Some have "(k, v) \<in> set counts" by (rule map_of_SomeD)
  ultimately have "0 \<le> v" by (fastforce simp: nonneg_counts_def)
  with Some show ?thesis by (simp add: dict_get_def)
qed

lemma count_slot_nonneg: "nonneg_counts counts \<Longrightarrow> nonneg_counts (count_slot counts pos)"
  unfolding count_slot_def Let_def
  using dict_get_nonneg [of counts "normalize_pos pos"]
  by (auto simp: nonneg_counts_def dest!: set_update_cases)

lemma count_loop_nonneg:
  "nonneg_counts counts \<Longrightarrow> nonneg_counts (foldl count_slot counts rp)"
  by (induction rp arbitrary: counts) (simp_all add: count_slot_nonneg)

lemma fallback_nonneg:
  "nonneg_counts counts \<Longrightarrow> 0 \<le> snd kv \<Longrightarrow> nonneg_counts (fallback counts kv)"
  unfolding fallback_def by (auto simp: nonneg_counts_def dest!: set_update_cases)

lemma fallback_loop_nonneg:
  "nonneg_counts counts \<Longrightarrow> nonneg_counts kvs \<Longrightarrow> nonneg_counts (foldl fallback counts kvs)"
proof (induction kvs arbitrary: counts)
  case Nil
  then show ?case by simp
next
  case (Cons kv kvs)
  from Cons.prems(2) have "0 \<le> snd kv" and "nonneg_counts kvs"
    by (simp_all add: nonneg_counts_def)
  with Cons.prems(1) Cons.IH show ?case
    by (simp add: fallback_nonneg)
qed

lemma compute_required_well_formed:
  "is_dict (compute_required_from_league lg) \<and> nonneg_counts (compute_required_from_league lg)"
proof -
  have "nonneg_counts []" and "nonneg_counts FIXED_REQUIRED"
    by (simp_all add: nonneg_counts_def FIXED_REQUIRED_def)
  then have "nonneg_counts (compute_required_from_league lg)"
    by (simp add: compute_required_from_league_def fallback_loop_nonneg count_loop_nonneg)
  moreover have "is_dict (compute_required_from_league lg)"
    unfolding is_dict_def compute_required_from_league_def Let_def
    by (intro fallback_loop_distinct count_loop_distinct) simp
  ultimately show ?thesis by simp
qed

section \<open>Properties of the weekly rank extraction\<close>

subsection \<open>The entry of a week\<close>

lemma hd_sorted_desc:
  fixes ys :: "real list"
  assumes "sorted (map (\<lambda>x. - x) ys)" and "ys \<noteq> []"
  shows "ys ! 0 = Max (set ys)"
proof -
  from assms(2) obtain y ys' where ys: "ys = y # ys'" by (cases ys) auto
  with assms(1) have "\<forall>z\<in>set ys'. z \<le> y" by auto
  then have "Max (set ys) = y"
    unfolding ys by (intro Max_eqI) auto
  with ys show ?thesis by simp
qed

lemma first_of_sorted_is_max:
  fixes scores :: "real list"
  assumes "scores \<noteq> []"
  shows "sort_key (\<lambda>x. - x) scores ! 0 = Max (set scores)"
proof -
  let ?s = "sort_key (\<lambda>x. - x) scores"
  have "sorted (map (\<lambda>x. - x) ?s)" by simp
  moreover have "?s \<noteq> []" using assms by (metis length_sort length_0_conv)
  ultimately have "?s ! 0 = Max (set ?s)" by (rule hd_sorted_desc)
  then show ?thesis by simp
qed

lemma week_entry_explicit:
  "week_entry w scores =
     \<lparr>week = w,
      highest_score = (if scores = [] then None else Some (sort_key (\<lambda>x. - x) scores ! 0)),
      twelfth_highest_score =
        (if length scores < 12 then None else Some (sort_key (\<lambda>x. - x) scores ! 11))\<rparr>"
  by (auto simp: week_entry_def Let_def)

lemma week_week_entry: "week (week_entry w ps) = w"
  by (simp add: week_entry_def Let_def)

subsection \<open>The loop over the weeks\<close>

text \<open>
  When every week of the range is readable the loop returns: the entries are those of the
  fetched weeks, in the order of the range.
\<close>

lemma scan_week_step:
  "scan_week get_matchups players pos acc w =
     (if fetched get_matchups w
      then (case week_scores get_matchups players pos w of
              Inl e \<Rightarrow> Inl e
            | Inr xs \<Rightarrow> Inr (fst acc @ [week_entry w xs],
                            snd acc @ (if xs \<noteq> [] then [] else [No_scores pos w])))
      else Inr (fst acc, snd acc @ [Failed_matchups w]))"
  by (auto simp: scan_week_def fetched_def week_scores_def and_then_def
      split: option.split sum.split)

lemma scan_week_readable:
  assumes "readable get_matchups players pos w"
  shows "scan_week get_matchups players pos acc w =
     Inr (fst acc @ (if fetched get_matchups w
                     then [week_entry w (scores_at get_matchups players pos w)] else []),
          snd acc @ week_messages get_matchups players pos w)"
  using assms
  by (auto simp: scan_week_step readable_def scores_at_def week_messages_def split: sum.splits)

lemma scan_weeks_readable:
  "list_all (readable get_matchups players pos) ws \<Longrightarrow>
   scan_weeks get_matchups players pos ws acc =
     Inr (fst acc @ map (\<lambda>w. week_entry w (scores_at get_matchups players pos w))
                      (filter (fetched get_matchups) ws),
          snd acc @ concat (map (week_messages get_matchups players pos) ws))"
proof (induction ws arbitrary: acc)
  case Nil
  then show ?case by simp
next
  case (Cons w ws)
  then have w: "readable get_matchups players pos w"
    and ws: "list_all (readable get_matchups players pos) ws" by simp_all
  show ?case
    by (simp add: scan_week_readable [OF w] and_then_def Cons.IH [OF ws])
qed

lemma filter_week_map:
  assumes "distinct ws" and "w \<in> set ws" and "\<And>v. week (f v) = v"
  shows "filter (\<lambda>x. week x = w) (map f ws) = [f w]"
  using assms(1,2)
proof (induction ws)
  case Nil
  then show ?case by simp
next
  case (Cons v ws)
  have none: "w \<notin> set ws \<Longrightarrow> filter (\<lambda>x. week x = w) (map f ws) = []"
    by (auto simp: filter_empty_conv assms(3))
  from Cons none show ?case
    by (auto simp: assms(3))
qed

lemma find_scores_readable:
  assumes "all_readable get_matchups players pos start_week end_week"
  shows "find_scores_by_position get_matchups players start_week end_week pos =
     Inr (map (\<lambda>w. week_entry w (scores_at get_matchups players pos w))
            (filter (fetched get_matchups) [start_week..end_week]),
          concat (map (week_messages get_matchups players pos) [start_week..end_week]))"
  using assms
  by (simp add: find_scores_by_position_def all_readable_def scan_weeks_readable)

text \<open>
  The only exception of the model is \<open>AttributeError\<close>, and a week that is not readable
  ends the run with it.
\<close>

lemma position_of_error: "position_of players pid = Inl e \<Longrightarrow> e = AttributeError"
  by (auto simp: position_of_def split: option.splits json.splits)

lemma collect_items_error:
  "collect_items players pos items acc = Inl e \<Longrightarrow> e = AttributeError"
proof (induction items arbitrary: acc)
  case Nil
  then show ?case by simp
next
  case (Cons item items)
  then show ?case
    by (cases "position_of players (fst item)")
      (auto simp: and_then_def dest: position_of_error)
qed

lemma collect_scores_error:
  "collect_scores players pos ms acc = Inl e \<Longrightarrow> e = AttributeError"
proof (induction ms arbitrary: acc)
  case Nil
  then show ?case by simp
next
  case (Cons m ms)
  show ?case
  proof (cases "players_points m")
    case None
    with Cons show ?thesis by simp
  next
    case (Some j)
    show ?thesis
    proof (cases j)
      case Null
      with Some Cons.prems show ?thesis by simp
    next
      case (Present pp)
      with Some Cons show ?thesis
        by (cases "collect_items players pos pp acc")
          (auto simp: and_then_def dest: collect_items_error)
    qed
  qed
qed

lemma scan_weeks_unreadable:
  "\<not> list_all (readable get_matchups players pos) ws \<Longrightarrow>
   scan_weeks get_matchups players pos ws acc = Inl AttributeError"
proof (induction ws arbitrary: acc)
  case Nil
  then show ?case by simp
next
  case (Cons w ws)
  show ?case
  proof (cases "readable get_matchups players pos w")
    case True
    with Cons.prems have "\<not> list_all (readable get_matchups players pos) ws" by simp
    then show ?thesis
      by (simp add: scan_week_readable [OF True] and_then_def Cons.IH)
  next
    case False
    then obtain e where e: "week_scores get_matchups players pos w = Inl e"
      by (auto simp: readable_def split: sum.splits)
    then have f: "fetched get_matchups w"
      by (auto simp: week_scores_def fetched_def split: option.splits)
    from e have "e = AttributeError"
      by (auto simp: week_scores_def split: option.splits dest: collect_scores_error)
    with e f show ?thesis
      by (simp add: scan_week_step and_then_def)
  qed
qed

lemma find_scores_raises:
  assumes "\<not> all_readable get_matchups players pos start_week end_week"
  shows "find_scores_by_position get_matchups players start_week end_week pos = Inl AttributeError"
  using assms
  by (simp add: find_scores_by_position_def all_readable_def scan_weeks_unreadable)

lemma null_players_points_raises:
  "find_scores_by_position null_weeks example_players 1 1 ''K'' = Inl AttributeError"
  by (simp add: find_scores_by_position_def upto.simps scan_week_def null_weeks_def and_then_def)

text \<open>
  C5. For every list of scores collected at one position in one week, the entry that
  \<open>find_scores_by_position\<close> returns for that week reports as highest score the first
  element of the descending sort, which is the maximum of the list, and reports the
  12th-highest score as absent (\<open>None\<close>, neither zero nor an error) when the list has
  fewer than 12 entries; with 12 or more it is the element of index 11 of the descending
  sort. The week is any fetched week of a range whose weeks are all readable, so that the
  call returns.
\<close>

theorem find_scores_rank:
  assumes "all_readable get_matchups players pos start_week end_week"
    and "start_week \<le> w \<and> w \<le> end_week"
    and "get_matchups w = Some matchups \<and> matchups \<noteq> []"
    and "collect_scores players pos matchups [] = Inr scores"
  shows "\<exists>entries msgs.
           find_scores_by_position get_matchups players start_week end_week pos
             = Inr (entries, msgs)
         \<and> filter (\<lambda>x. week x = w) entries =
             [\<lparr>week = w,
               highest_score =
                 (if scores = [] then None else Some (sort_key (\<lambda>x. - x) scores ! 0)),
               twelfth_highest_score =
                 (if length scores < 12 then None
                  else Some (sort_key (\<lambda>x. - x) scores ! 11))\<rparr>]
         \<and> (scores \<noteq> [] \<longrightarrow> sort_key (\<lambda>x. - x) scores ! 0 = Max (set scores))"
proof -
  let ?f = "\<lambda>w. week_entry w (scores_at get_matchups players pos w)"
  let ?ws = "filter (fetched get_matchups) [start_week..end_week]"
  have fw: "fetched get_matchups w"
    using assms(3) by (simp add: fetched_def)
  have sc: "scores_at get_matchups players pos w = scores"
    using assms(3,4) by (simp add: scores_at_def week_scores_def)
  have "w \<in> set ?ws" using assms(2) fw by simp
  moreover have "distinct ?ws" by simp
  ultimately have "filter (\<lambda>x. week x = w) (map ?f ?ws) = [?f w]"
    by (intro filter_week_map) (simp_all add: week_week_entry)
  then have one: "filter (\<lambda>x. week x = w) (map ?f ?ws) =
             [\<lparr>week = w,
               highest_score =
                 (if scores = [] then None else Some (sort_key (\<lambda>x. - x) scores ! 0)),
               twelfth_highest_score =
                 (if length scores < 12 then None
                  else Some (sort_key (\<lambda>x. - x) scores ! 11))\<rparr>]"
    by (simp only: sc week_entry_explicit)
  have mx: "scores \<noteq> [] \<longrightarrow> sort_key (\<lambda>x. - x) scores ! 0 = Max (set scores)"
    by (simp add: first_of_sorted_is_max)
  from find_scores_readable [OF assms(1)] one mx show ?thesis by blast
qed

text \<open>
  The example of the specification: for the 8 kicker scores 8, 7, ..., 1 of a week the
  highest is 8 and the 12th-highest is absent.
\<close>

theorem find_scores_rank_witness:
  "all_readable kicker_weeks kicker_players ''K'' 1 1
   \<and> kicker_weeks 1 = Some kicker_matchups \<and> kicker_matchups \<noteq> []
   \<and> collect_scores kicker_players ''K'' kicker_matchups [] = Inr example_scores
   \<and> (\<exists>entries msgs.
         find_scores_by_position kicker_weeks kicker_players 1 1 ''K'' = Inr (entries, msgs)
       \<and> filter (\<lambda>x. week x = 1) entries =
           [\<lparr>week = 1, highest_score = Some 8, twelfth_highest_score = None\<rparr>])
   \<and> find_scores_by_position kicker_weeks kicker_players 1 1 ''K''
       = Inr ([\<lparr>week = 1, highest_score = Some 8, twelfth_highest_score = None\<rparr>], [])"
proof -
  have c: "collect_scores kicker_players ''K'' kicker_matchups [] = Inr example_scores"
    by (simp add: kicker_matchups_def eight_kickers_def kicker_players_def example_scores_def
        position_of_def and_then_def)
  have g: "kicker_weeks 1 = Some kicker_matchups \<and> kicker_matchups \<noteq> []"
    by (simp add: kicker_weeks_def kicker_matchups_def)
  have r: "all_readable kicker_weeks kicker_players ''K'' 1 1"
    by (simp add: all_readable_def readable_def week_scores_def kicker_weeks_def c upto.simps)
  have b: "(1::int) \<le> 1 \<and> (1::int) \<le> 1" by simp
  have s: "sort_key (\<lambda>x. - x) example_scores ! 0 = 8" "length example_scores = 8"
    by (simp_all add: example_scores_def)
  have run: "find_scores_by_position kicker_weeks kicker_players 1 1 ''K''
       = Inr ([\<lparr>week = 1, highest_score = Some 8, twelfth_highest_score = None\<rparr>], [])"
    using g by (simp add: find_scores_by_position_def upto.simps scan_week_def c and_then_def
        week_entry_def example_scores_def Let_def)
  from find_scores_rank [OF r b g c]
  have "\<exists>entries msgs.
         find_scores_by_position kicker_weeks kicker_players 1 1 ''K'' = Inr (entries, msgs)
       \<and> filter (\<lambda>x. week x = 1) entries =
           [\<lparr>week = 1, highest_score = Some 8, twelfth_highest_score = None\<rparr>]"
    by (simp add: s example_scores_def)
  with r g c run show ?thesis by blast
qed

text \<open>
  C10. When every week of the range is readable, \<open>find_scores_by_position\<close> returns, and
  its entries are those of the weeks of the range, in increasing order, whose fetch
  returned a list that is not empty: a week whose fetch failed, or returned the empty
  list, contributes no entry; a week with a non-empty list and no score at the position
  contributes the entry whose highest and 12th-highest scores are both \<open>None\<close>.
\<close>

theorem find_scores_weeks:
  assumes "all_readable get_matchups players pos start_week end_week"
  shows "\<exists>entries msgs.
           find_scores_by_position get_matchups players start_week end_week pos
             = Inr (entries, msgs)
         \<and> map week entries = filter (fetched get_matchups) [start_week..end_week]
         \<and> sorted (map week entries) \<and> distinct (map week entries)
         \<and> (\<not> fetched get_matchups w \<longrightarrow> w \<notin> set (map week entries))
         \<and> (start_week \<le> w \<and> w \<le> end_week \<and> fetched get_matchups w
              \<and> week_scores get_matchups players pos w = Inr [] \<longrightarrow>
              \<lparr>week = w, highest_score = None, twelfth_highest_score = None\<rparr> \<in> set entries)"
proof -
  let ?f = "\<lambda>w. week_entry w (scores_at get_matchups players pos w)"
  let ?ws = "filter (fetched get_matchups) [start_week..end_week]"
  let ?E = "map ?f ?ws"
  have weeks: "map week ?E = ?ws"
    by (simp add: comp_def week_week_entry)
  have srt: "sorted (map week ?E)"
    unfolding weeks by (rule sorted_wrt_filter) simp
  have dst: "distinct (map week ?E)"
    unfolding weeks by simp
  have out: "\<not> fetched get_matchups w \<longrightarrow> w \<notin> set (map week ?E)"
    unfolding weeks by simp
  have inn: "start_week \<le> w \<and> w \<le> end_week \<and> fetched get_matchups w
              \<and> week_scores get_matchups players pos w = Inr [] \<longrightarrow>
              \<lparr>week = w, highest_score = None, twelfth_highest_score = None\<rparr> \<in> set ?E"
  proof
    assume a: "start_week \<le> w \<and> w \<le> end_week \<and> fetched get_matchups w
              \<and> week_scores get_matchups players pos w = Inr []"
    then have "w \<in> set ?ws" by simp
    then have "?f w \<in> ?f ` set ?ws" by (rule imageI)
    moreover from a have "?f w = \<lparr>week = w, highest_score = None, twelfth_highest_score = None\<rparr>"
      by (simp add: scores_at_def week_entry_def)
    ultimately show "\<lparr>week = w, highest_score = None, twelfth_highest_score = None\<rparr> \<in> set ?E"
      by (simp only: set_map)
  qed
  from find_scores_readable [OF assms] weeks srt dst out inn show ?thesis by blast
qed

lemma example_run:
  "find_scores_by_position example_weeks example_players 1 4 ''K'' =
     Inr ([\<lparr>week = 3, highest_score = None, twelfth_highest_score = None\<rparr>,
           \<lparr>week = 4, highest_score = Some 11, twelfth_highest_score = None\<rparr>],
          [Failed_matchups 1, Failed_matchups 2, No_scores ''K'' 3])"
  by (simp add: find_scores_by_position_def upto.simps scan_week_def example_weeks_def
      example_players_def position_of_def and_then_def week_entry_def Let_def)

text \<open>
  The week 2 of the example run is fetched successfully, with an empty list of
  matchups: it has no score at the position K, and it has no entry either. So the entries
  do not cover every successfully fetched week.
\<close>

theorem find_scores_empty_week_counterexample:
  "example_weeks 2 = Some []
   \<and> find_scores_by_position example_weeks example_players 1 4 ''K'' =
       Inr ([\<lparr>week = 3, highest_score = None, twelfth_highest_score = None\<rparr>,
             \<lparr>week = 4, highest_score = Some 11, twelfth_highest_score = None\<rparr>],
            [Failed_matchups 1, Failed_matchups 2, No_scores ''K'' 3])"
  by (simp add: example_run) (simp add: example_weeks_def)

text \<open>The theorem on the example run: week 1 has no entry, week 3 the empty one.\<close>

theorem find_scores_weeks_witness:
  "all_readable example_weeks example_players ''K'' 1 4
   \<and> \<not> fetched example_weeks 1 \<and> \<not> fetched example_weeks 2
   \<and> fetched example_weeks 3 \<and> week_scores example_weeks example_players ''K'' 3 = Inr []
   \<and> (\<exists>entries msgs.
         find_scores_by_position example_weeks example_players 1 4 ''K'' = Inr (entries, msgs)
       \<and> map week entries = [3, 4]
       \<and> 1 \<notin> set (map week entries)
       \<and> \<lparr>week = 3, highest_score = None, twelfth_highest_score = None\<rparr> \<in> set entries)"
proof -
  have ws: "week_scores example_weeks example_players ''K'' 1 = Inr []"
       "week_scores example_weeks example_players ''K'' 2 = Inr []"
       "week_scores example_weeks example_players ''K'' 3 = Inr []"
       "week_scores example_weeks example_players ''K'' 4 = Inr [8, 11]"
    by (simp_all add: week_scores_def example_weeks_def example_players_def position_of_def
        and_then_def)
  have r: "all_readable example_weeks example_players ''K'' 1 4"
    by (simp add: all_readable_def readable_def ws upto.simps)
  have f: "\<not> fetched example_weeks 1" "\<not> fetched example_weeks 2" "fetched example_weeks 3"
    by (simp_all add: fetched_def example_weeks_def)
  have fl: "filter (fetched example_weeks) [1..4] = [3, 4]"
    by (simp add: upto.simps fetched_def example_weeks_def)
  from find_scores_weeks [OF r, of 1] obtain entries msgs where
    e: "find_scores_by_position example_weeks example_players 1 4 ''K'' = Inr (entries, msgs)"
    and w: "map week entries = filter (fetched example_weeks) [1..4]"
    and o: "\<not> fetched example_weeks 1 \<longrightarrow> 1 \<notin> set (map week entries)"
    by blast
  from find_scores_weeks [OF r, of 3] e have
    "3 \<le> (3::int) \<and> fetched example_weeks 3
       \<and> week_scores example_weeks example_players ''K'' 3 = Inr [] \<longrightarrow>
     \<lparr>week = 3, highest_score = None, twelfth_highest_score = None\<rparr> \<in> set entries"
    by auto
  with f ws have i: "\<lparr>week = 3, highest_score = None, twelfth_highest_score = None\<rparr> \<in> set entries"
    by simp
  from e w o i f fl have "\<exists>entries msgs.
         find_scores_by_position example_weeks example_players 1 4 ''K'' = Inr (entries, msgs)
       \<and> map week entries = [3, 4]
       \<and> 1 \<notin> set (map week entries)
       \<and> \<lparr>week = 3, highest_score = None, twelfth_highest_score = None\<rparr> \<in> set entries"
    by auto
  with r f ws show ?thesis by blast
qed

section \<open>Properties of the standings accumulator\<close>

lemma weeks_1_1: "[1..1] = [1 :: int]"
  by (simp add: upto.simps)

lemma weeks_1_2: "[1..2] = [1, 2 :: int]"
  by (simp add: upto.simps)

text \<open>
  C4. The specification states that standings accumulation is symmetric: one result is
  recorded across the pair of a two-sided matchup, and wins + losses + ties of a roster
  equals the number of matchups it took part in. The code does not do that. At one week
  with the single game of roster 1 (10 points) against roster 2 (5 points), the loop
  visits both entries and each visit updates both rosters, so the game is recorded
  twice: roster 1 ends with 2 wins and roster 2 with 2 losses after one matchup each.
  On the same game with the shared pairing id 1 in both entries, the entry of roster 1
  finds itself as its opponent and records two ties for roster 1, and the entry of
  roster 2 records the game: roster 1 ends with 1 win and 2 ties, roster 2 with 1 loss.
\<close>

theorem process_matchups_counts_each_game_twice:
  "final_counters (process_matchups (Some example_rosters) one_game_each_week 1) 1
     = Some \<lparr>wins = 2, losses = 0, ties = 0,
             division_wins = 2, division_losses = 0, division_ties = 0\<rparr>
   \<and> final_counters (process_matchups (Some example_rosters) one_game_each_week 1) 2
     = Some \<lparr>wins = 0, losses = 2, ties = 0,
             division_wins = 0, division_losses = 2, division_ties = 0\<rparr>
   \<and> final_messages (process_matchups (Some example_rosters) one_game_each_week 1) = []
   \<and> final_counters (process_matchups (Some example_rosters) shared_id_each_week 1) 1
     = Some \<lparr>wins = 1, losses = 0, ties = 2,
             division_wins = 1, division_losses = 0, division_ties = 2\<rparr>
   \<and> final_counters (process_matchups (Some example_rosters) shared_id_each_week 1) 2
     = Some \<lparr>wins = 0, losses = 1, ties = 0,
             division_wins = 0, division_losses = 1, division_ties = 0\<rparr>"
proof -
  have a: "process_matchups (Some example_rosters) one_game_each_week 1 =
      Inr (Some [1 \<mapsto> \<lparr>wins = 2, losses = 0, ties = 0,
                        division_wins = 2, division_losses = 0, division_ties = 0\<rparr>,
                 2 \<mapsto> \<lparr>wins = 0, losses = 2, ties = 0,
                        division_wins = 0, division_losses = 2, division_ties = 0\<rparr>], [])"
    by (simp add: process_matchups_def weeks_1_1 example_rosters_def one_game_each_week_def
        one_game_def process_week_def process_entry_def resolve_opponent_def record_result_def
        record_division_result_def incr_def and_then_def division_of_def zero_counters_def
        Let_def fun_eq_iff)
  have b: "process_matchups (Some example_rosters) shared_id_each_week 1 =
      Inr (Some [1 \<mapsto> \<lparr>wins = 1, losses = 0, ties = 2,
                        division_wins = 1, division_losses = 0, division_ties = 2\<rparr>,
                 2 \<mapsto> \<lparr>wins = 0, losses = 1, ties = 0,
                        division_wins = 0, division_losses = 1, division_ties = 0\<rparr>],
           [])"
    by (simp add: process_matchups_def weeks_1_1 example_rosters_def shared_id_each_week_def
        one_game_shared_id_def process_week_def process_entry_def resolve_opponent_def
        record_result_def record_division_result_def incr_def and_then_def division_of_def
        zero_counters_def Let_def fun_eq_iff)
  show ?thesis
    by (simp add: a b final_counters_def final_messages_def)
qed

subsection \<open>Skipped weeks and skipped entries\<close>

text \<open>
  What was printed has no influence on the counters: two runs of a loop from the same
  table end with the same table.
\<close>

lemma outcome_table_and_then:
  assumes "outcome_table r1 = outcome_table r2"
    and "\<And>p1 p2. table p1 = table p2 \<Longrightarrow> outcome_table (f p1) = outcome_table (g p2)"
  shows "outcome_table (and_then r1 f) = outcome_table (and_then r2 g)"
  using assms by (cases r1; cases r2) (simp_all add: outcome_table_def and_then_def)

lemma process_entry_table:
  assumes "table p1 = table p2"
  shows "outcome_table (process_entry divs matchups w p1 m)
       = outcome_table (process_entry divs matchups w p2 m)"
proof (cases "resolve_opponent matchups (matchup_id m)")
  case None
  with assms show ?thesis by (simp add: process_entry_def outcome_table_def)
next
  case (Some a)
  obtain oid opp where a: "a = (oid, opp)" by (cases a)
  show ?thesis
  proof (cases "record_result (m_roster_id m) oid (points m) opp (table p2)")
    case (Inl e)
    with Some a assms show ?thesis
      by (simp add: process_entry_def outcome_table_def and_then_def)
  next
    case (Inr st)
    with Some a assms show ?thesis
      by (cases "record_division_result divs (m_roster_id m) oid (points m) opp st")
        (simp_all add: process_entry_def outcome_table_def and_then_def)
  qed
qed

lemma process_entries_table:
  "table p1 = table p2 \<Longrightarrow>
   outcome_table (process_entries divs matchups w ms p1)
     = outcome_table (process_entries divs matchups w ms p2)"
proof (induction ms arbitrary: p1 p2)
  case Nil
  then show ?case by (simp add: outcome_table_def)
next
  case (Cons m ms)
  show ?case
    unfolding process_entries.simps
  proof (rule outcome_table_and_then)
    show "outcome_table (process_entry divs matchups w p1 m)
        = outcome_table (process_entry divs matchups w p2 m)"
      using Cons.prems by (rule process_entry_table)
  qed (rule Cons.IH)
qed

lemma process_week_table:
  "table p1 = table p2 \<Longrightarrow>
   outcome_table (process_week get_matchups divs w p1)
     = outcome_table (process_week get_matchups divs w p2)"
proof (cases "get_matchups w")
  case None
  assume "table p1 = table p2"
  with None show ?thesis by (simp add: process_week_def outcome_table_def)
next
  case (Some ms)
  assume eq: "table p1 = table p2"
  show ?thesis
  proof (cases "ms = []")
    case True
    with Some eq show ?thesis by (simp add: process_week_def outcome_table_def)
  next
    case False
    with Some have "process_week get_matchups divs w p1 = process_entries divs ms w ms p1"
      and "process_week get_matchups divs w p2 = process_entries divs ms w ms p2"
      by (simp_all add: process_week_def)
    with process_entries_table [OF eq] show ?thesis by simp
  qed
qed

lemma process_weeks_table:
  "table p1 = table p2 \<Longrightarrow>
   outcome_table (process_weeks get_matchups divs ws p1)
     = outcome_table (process_weeks get_matchups divs ws p2)"
proof (induction ws arbitrary: p1 p2)
  case Nil
  then show ?case by (simp add: outcome_table_def)
next
  case (Cons w ws)
  show ?case
    unfolding process_weeks.simps
  proof (rule outcome_table_and_then)
    show "outcome_table (process_week get_matchups divs w p1)
        = outcome_table (process_week get_matchups divs w p2)"
      using Cons.prems by (rule process_week_table)
  qed (rule Cons.IH)
qed

lemma process_entries_skip:
  "outcome_table (process_entries divs matchups w ms pr)
     = outcome_table (process_entries divs matchups w (filter (resolved matchups) ms) pr)"
proof (induction ms arbitrary: pr)
  case Nil
  show ?case by simp
next
  case (Cons m ms)
  show ?case
  proof (cases "resolved matchups m")
    case True
    have "outcome_table (and_then (process_entry divs matchups w pr m)
                           (process_entries divs matchups w ms))
        = outcome_table (and_then (process_entry divs matchups w pr m)
                           (process_entries divs matchups w (filter (resolved matchups) ms)))"
    proof (rule outcome_table_and_then)
      fix p1 p2 :: progress
      assume "table p1 = table p2"
      then have "outcome_table (process_entries divs matchups w ms p1)
               = outcome_table (process_entries divs matchups w ms p2)"
        by (rule process_entries_table)
      also have "\<dots> = outcome_table (process_entries divs matchups w (filter (resolved matchups) ms) p2)"
        by (rule Cons.IH)
      finally show "outcome_table (process_entries divs matchups w ms p1)
               = outcome_table (process_entries divs matchups w (filter (resolved matchups) ms) p2)" .
    qed (rule refl)
    with True show ?thesis by simp
  next
    case False
    then have "resolve_opponent matchups (matchup_id m) = None"
      unfolding resolved_def by blast
    then have "process_entries divs matchups w (m # ms) pr
        = process_entries divs matchups w ms
            (pr\<lparr>printed := printed pr @ [No_opponent_points (m_roster_id m) w]\<rparr>)"
      by (simp add: process_entry_def and_then_def)
    moreover have "outcome_table (process_entries divs matchups w ms
            (pr\<lparr>printed := printed pr @ [No_opponent_points (m_roster_id m) w]\<rparr>))
        = outcome_table (process_entries divs matchups w ms pr)"
      by (rule process_entries_table) simp
    ultimately show ?thesis
      using False Cons.IH [of pr] by (simp del: process_entries.simps process_weeks.simps)
  qed
qed

lemma process_weeks_skip:
  "outcome_table (process_weeks get_matchups divs ws pr)
     = outcome_table (process_weeks get_matchups divs (filter (fetch_ok get_matchups) ws) pr)"
proof (induction ws arbitrary: pr)
  case Nil
  show ?case by simp
next
  case (Cons w ws)
  show ?case
  proof (cases "fetch_ok get_matchups w")
    case True
    have "outcome_table (and_then (process_week get_matchups divs w pr)
                           (process_weeks get_matchups divs ws))
        = outcome_table (and_then (process_week get_matchups divs w pr)
                           (process_weeks get_matchups divs (filter (fetch_ok get_matchups) ws)))"
    proof (rule outcome_table_and_then)
      fix p1 p2 :: progress
      assume "table p1 = table p2"
      then have "outcome_table (process_weeks get_matchups divs ws p1)
               = outcome_table (process_weeks get_matchups divs ws p2)"
        by (rule process_weeks_table)
      also have "\<dots> = outcome_table (process_weeks get_matchups divs (filter (fetch_ok get_matchups) ws) p2)"
        by (rule Cons.IH)
      finally show "outcome_table (process_weeks get_matchups divs ws p1)
               = outcome_table (process_weeks get_matchups divs (filter (fetch_ok get_matchups) ws) p2)" .
    qed (rule refl)
    with True show ?thesis by simp
  next
    case False
    then have "process_weeks get_matchups divs (w # ws) pr
        = process_weeks get_matchups divs ws (pr\<lparr>printed := printed pr @ [Failed_matchups w]\<rparr>)"
      by (simp add: fetch_ok_def process_week_def and_then_def)
    moreover have "outcome_table (process_weeks get_matchups divs ws
            (pr\<lparr>printed := printed pr @ [Failed_matchups w]\<rparr>))
        = outcome_table (process_weeks get_matchups divs ws pr)"
      by (rule process_weeks_table) simp
    ultimately show ?thesis
      using False Cons.IH [of pr] by (simp del: process_entries.simps process_weeks.simps)
  qed
qed

text \<open>
  C7. A week whose matchup fetch fails, and a matchup entry whose opponent's points
  cannot be resolved, are skipped with a message: the table of the six counters of every
  roster is left as it was (nothing is recorded as a win, a loss or a tie), and the loop
  goes on with the remaining weeks, respectively the remaining entries of the week. So
  the table at the end of either loop is the one the loop reaches on the remaining units
  alone.
\<close>

theorem skipped_units_change_nothing:
  "(get_matchups w = None \<longrightarrow>
      process_week get_matchups roster_divisions w pr
        = Inr (pr\<lparr>printed := printed pr @ [Failed_matchups w]\<rparr>)
    \<and> table (pr\<lparr>printed := printed pr @ [Failed_matchups w]\<rparr>) = table pr
    \<and> process_weeks get_matchups roster_divisions (w # ws) pr
        = process_weeks get_matchups roster_divisions ws
            (pr\<lparr>printed := printed pr @ [Failed_matchups w]\<rparr>))
   \<and> (resolve_opponent matchups (matchup_id m) = None \<longrightarrow>
      process_entry roster_divisions matchups w' pr m
        = Inr (pr\<lparr>printed := printed pr @ [No_opponent_points (m_roster_id m) w']\<rparr>)
    \<and> table (pr\<lparr>printed := printed pr @ [No_opponent_points (m_roster_id m) w']\<rparr>) = table pr
    \<and> process_entries roster_divisions matchups w' (m # ms) pr
        = process_entries roster_divisions matchups w' ms
            (pr\<lparr>printed := printed pr @ [No_opponent_points (m_roster_id m) w']\<rparr>))
   \<and> outcome_table (process_weeks get_matchups roster_divisions ws pr)
        = outcome_table (process_weeks get_matchups roster_divisions
                           (filter (fetch_ok get_matchups) ws) pr)
   \<and> outcome_table (process_entries roster_divisions matchups w' ms pr)
        = outcome_table (process_entries roster_divisions matchups w'
                           (filter (resolved matchups) ms) pr)"
proof -
  have week: "get_matchups w = None \<longrightarrow>
      process_week get_matchups roster_divisions w pr
        = Inr (pr\<lparr>printed := printed pr @ [Failed_matchups w]\<rparr>)
    \<and> table (pr\<lparr>printed := printed pr @ [Failed_matchups w]\<rparr>) = table pr
    \<and> process_weeks get_matchups roster_divisions (w # ws) pr
        = process_weeks get_matchups roster_divisions ws
            (pr\<lparr>printed := printed pr @ [Failed_matchups w]\<rparr>)"
    by (simp add: process_week_def and_then_def)
  have entry: "resolve_opponent matchups (matchup_id m) = None \<longrightarrow>
      process_entry roster_divisions matchups w' pr m
        = Inr (pr\<lparr>printed := printed pr @ [No_opponent_points (m_roster_id m) w']\<rparr>)
    \<and> table (pr\<lparr>printed := printed pr @ [No_opponent_points (m_roster_id m) w']\<rparr>) = table pr
    \<and> process_entries roster_divisions matchups w' (m # ms) pr
        = process_entries roster_divisions matchups w' ms
            (pr\<lparr>printed := printed pr @ [No_opponent_points (m_roster_id m) w']\<rparr>)"
    by (simp add: process_entry_def and_then_def)
  from week entry
    process_weeks_skip [of get_matchups roster_divisions ws pr]
    process_entries_skip [of roster_divisions matchups w' ms pr]
  show ?thesis by (intro conjI)
qed

text \<open>
  The theorem on the run of two weeks where the fetch of week 1 fails and neither entry
  of week 2 has an opponent: every counter of both rosters is still zero, and the three
  messages were printed.
\<close>

theorem skipped_units_change_nothing_witness:
  "broken_weeks 1 = None
   \<and> resolve_opponent unresolved_entries (matchup_id \<lparr>m_roster_id = 1, points = 10, matchup_id = None\<rparr>) = None
   \<and> process_weeks broken_weeks Map.empty [1, 2] start_progress
       = process_weeks broken_weeks Map.empty [2]
           (start_progress\<lparr>printed := printed start_progress @ [Failed_matchups 1]\<rparr>)
   \<and> process_entry Map.empty unresolved_entries 2 start_progress
         \<lparr>m_roster_id = 1, points = 10, matchup_id = None\<rparr>
       = Inr (start_progress\<lparr>printed := printed start_progress @ [No_opponent_points 1 2]\<rparr>)
   \<and> final_counters (process_matchups (Some example_rosters) broken_weeks 2) 1 = Some zero_counters
   \<and> final_counters (process_matchups (Some example_rosters) broken_weeks 2) 2 = Some zero_counters
   \<and> final_messages (process_matchups (Some example_rosters) broken_weeks 2)
       = [Failed_matchups 1, No_opponent_points 1 2, No_opponent_points 2 2]"
proof -
  have h1: "broken_weeks 1 = None"
    by (simp add: broken_weeks_def)
  have h2: "resolve_opponent unresolved_entries
              (matchup_id \<lparr>m_roster_id = 1, points = 10, matchup_id = None\<rparr>) = None"
    by (simp add: resolve_opponent_def)
  have run: "final_counters (process_matchups (Some example_rosters) broken_weeks 2) 1 = Some zero_counters
     \<and> final_counters (process_matchups (Some example_rosters) broken_weeks 2) 2 = Some zero_counters
     \<and> final_messages (process_matchups (Some example_rosters) broken_weeks 2)
         = [Failed_matchups 1, No_opponent_points 1 2, No_opponent_points 2 2]"
    by (simp add: final_counters_def final_messages_def process_matchups_def weeks_1_2
        example_rosters_def broken_weeks_def unresolved_entries_def process_week_def
        process_entry_def resolve_opponent_def and_then_def division_of_def Let_def)
  note inst = skipped_units_change_nothing [where get_matchups = broken_weeks and w = 1
      and roster_divisions = Map.empty and pr = start_progress and ws = "[2]"
      and matchups = unresolved_entries
      and m = "\<lparr>m_roster_id = 1, points = 10, matchup_id = None\<rparr>" and w' = 2 and ms = "[]"]
  from inst h1 have weeks: "process_weeks broken_weeks Map.empty [1, 2] start_progress
       = process_weeks broken_weeks Map.empty [2]
           (start_progress\<lparr>printed := printed start_progress @ [Failed_matchups 1]\<rparr>)"
    by blast
  from inst h2 have entry: "process_entry Map.empty unresolved_entries 2 start_progress
         \<lparr>m_roster_id = 1, points = 10, matchup_id = None\<rparr>
       = Inr (start_progress\<lparr>printed := printed start_progress @ [No_opponent_points 1 2]\<rparr>)"
    by simp
  from h1 h2 weeks entry run show ?thesis by blast
qed

section \<open>Properties of the distance buckets\<close>

text \<open>
  C6. The specification states that every attempt falls into exactly one bucket, the
  bucket labelled \<open><30\<close> holding exactly the attempts below 30 yards, \<open>30-39\<close> those from
  30 to 39, and so on up to \<open>60+\<close>. The code does not do that on the boundaries: with
  \<open>right=False\<close> the bins are closed on the left, so an attempt of 29 yards is labelled
  \<open>30-39\<close>, one of 39 yards \<open>40-49\<close>, one of 49 yards \<open>50-54\<close>, one of 54 yards \<open>55-59\<close>,
  one of 59 yards \<open>60+\<close>, and one of 99 yards gets no bucket.
\<close>

theorem distance_bucket_boundaries:
  "distance_bucket (attempt 29 ''made'') = Some ''30-39''
   \<and> distance_bucket (attempt 39 ''made'') = Some ''40-49''
   \<and> distance_bucket (attempt 49 ''made'') = Some ''50-54''
   \<and> distance_bucket (attempt 54 ''made'') = Some ''55-59''
   \<and> distance_bucket (attempt 59 ''made'') = Some ''60+''
   \<and> distance_bucket (attempt 99 ''made'') = None"
  by (simp add: distance_bucket_def attempt_def bins_def labels_def)

text \<open>The bucket of every distance, as the code assigns it.\<close>

lemma distance_bucket_cases:
  "distance_bucket fg =
     (let d = kick_distance fg in
      if 0 \<le> d \<and> d < 29 then Some ''<30''
      else if 29 \<le> d \<and> d < 39 then Some ''30-39''
      else if 39 \<le> d \<and> d < 49 then Some ''40-49''
      else if 49 \<le> d \<and> d < 54 then Some ''50-54''
      else if 54 \<le> d \<and> d < 59 then Some ''55-59''
      else if 59 \<le> d \<and> d < 99 then Some ''60+''
      else None)"
  by (simp add: distance_bucket_def bins_def labels_def Let_def)

lemma makes_le_attempts: "makes (summary_of fgs l) \<le> attempts (summary_of fgs l)"
  by (simp add: summary_of_def Let_def del: filter_filter)

lemma makes_nonneg: "0 \<le> makes (summary_of fgs l)"
  by (simp add: summary_of_def Let_def)

text \<open>
  C8. For every row of the field-goal summary the success rate is makes divided by
  attempts, times 100, and the rate of a bucket with no attempt is undefined (NaN), not
  zero.
\<close>

theorem success_rate_of_row:
  assumes "row \<in> set (analyze_field_goal_distances field_goals)"
  shows "(attempts row \<noteq> 0 \<longrightarrow>
            success_rate row
              = Finite (real_of_int (makes row) / real_of_int (attempts row) * 100))
       \<and> (attempts row = 0 \<longrightarrow> success_rate row = NaN \<and> success_rate row \<noteq> Finite 0)"
proof -
  from assms obtain l where row: "row = summary_of field_goals l"
    by (auto simp: analyze_field_goal_distances_def)
  have rate: "success_rate row = times_pos (true_divide (makes row) (attempts row)) 100"
    by (simp add: row summary_of_def Let_def)
  have "makes row = 0" if "attempts row = 0"
    using that makes_le_attempts [of field_goals l] makes_nonneg [of field_goals l]
    by (simp add: row)
  then show ?thesis
    by (auto simp: rate true_divide_def times_pos_def)
qed

text \<open>
  The theorem on three kicks: the bucket \<open><30\<close> has two attempts and one make, a rate of
  50; the bucket \<open>30-39\<close> has no attempt, and its rate is NaN.
\<close>

theorem success_rate_of_row_witness:
  "summary_of example_kicks ''<30'' \<in> set (analyze_field_goal_distances example_kicks)
   \<and> attempts (summary_of example_kicks ''<30'') = 2
   \<and> makes (summary_of example_kicks ''<30'') = 1
   \<and> success_rate (summary_of example_kicks ''<30'') = Finite 50
   \<and> summary_of example_kicks ''30-39'' \<in> set (analyze_field_goal_distances example_kicks)
   \<and> attempts (summary_of example_kicks ''30-39'') = 0
   \<and> success_rate (summary_of example_kicks ''30-39'') = NaN"
proof -
  have h1: "summary_of example_kicks ''<30'' \<in> set (analyze_field_goal_distances example_kicks)"
    by (simp add: analyze_field_goal_distances_def labels_def)
  have h2: "summary_of example_kicks ''30-39'' \<in> set (analyze_field_goal_distances example_kicks)"
    by (simp add: analyze_field_goal_distances_def labels_def)
  have a1: "attempts (summary_of example_kicks ''<30'') = 2 \<and> makes (summary_of example_kicks ''<30'') = 1"
    by (simp add: summary_of_def example_kicks_def attempt_def distance_bucket_def bins_def
        labels_def Let_def)
  have a2: "attempts (summary_of example_kicks ''30-39'') = 0"
    by (simp add: summary_of_def example_kicks_def attempt_def distance_bucket_def bins_def
        labels_def Let_def)
  from h1 h2 a1 a2 success_rate_of_row [OF h1] success_rate_of_row [OF h2]
  show ?thesis by simp
qed

end
